theory Spec2Isabelle
  imports Complex_Main "HOL-Library.Word"
begin

unbundle bit_operations_syntax

section \<open>Failures and checked vector access\<close>

text \<open>
  The sources signal a fatal condition by throwing \<^verbatim>\<open>CasadiException\<close> with a message.
  They index \<^verbatim>\<open>std::vector\<close> with \<^verbatim>\<open>operator[]\<close> and write through iterators
  without any bounds check; C++ leaves an access outside the vector undefined. The
  model makes every such access a failure of its own, \<open>OutOfRange\<close>, so that no
  statement below rests on the value of an out-of-range read.
\<close>

datatype error = CasadiException string | OutOfRange

definition ebind :: "error + 'a \<Rightarrow> ('a \<Rightarrow> error + 'b) \<Rightarrow> error + 'b" where
  "ebind m f = (case m of Inl e \<Rightarrow> Inl e | Inr x \<Rightarrow> f x)"

definition vec_get :: "'a list \<Rightarrow> int \<Rightarrow> error + 'a" where
  "vec_get v i = (if 0 \<le> i \<and> i < int (length v) then Inr (v ! nat i) else Inl OutOfRange)"

definition vec_set :: "'a list \<Rightarrow> int \<Rightarrow> 'a \<Rightarrow> error + 'a list" where
  "vec_set v i x = (if 0 \<le> i \<and> i < int (length v) then Inr (v[nat i := x]) else Inl OutOfRange)"

text \<open>
  A \<^verbatim>\<open>for\<close> loop over a range or over the entries of a vector: the body is run on
  each element in order and the first failure ends the loop.
\<close>

fun foreach :: "'i list \<Rightarrow> ('i \<Rightarrow> 's \<Rightarrow> error + 's) \<Rightarrow> 's \<Rightarrow> error + 's" where
  "foreach [] body s = Inr s"
| "foreach (i # is) body s = (case body i s of Inl e \<Rightarrow> Inl e | Inr s' \<Rightarrow> foreach is body s')"

text \<open>The range of \<^verbatim>\<open>for(int k=0; k<n; ++k)\<close>: empty when \<open>n \<le> 0\<close>.\<close>

definition range_int :: "int \<Rightarrow> int list" where
  "range_int n = map int [0..<nat n]"

section \<open>The values of type double\<close>

text \<open>
  A \<^verbatim>\<open>double\<close> is not-a-number, an infinity or a finite number. Finite numbers are
  carried as reals: the results of \<open>+\<close>, \<open>-\<close>, \<open>*\<close>, \<open>/\<close> and \<open>sqrt\<close> are not
  rounded, do not overflow, and zero has no sign. Comparison, absolute value, the
  propagation of not-a-number and of the infinities, and sums of small integers are
  exact in IEEE arithmetic as well; the statements of this theory use nothing else.
\<close>

datatype double = NaN | PInf | NInf | Num real

fun fabs :: "double \<Rightarrow> double" where
  "fabs NaN = NaN"
| "fabs PInf = PInf"
| "fabs NInf = PInf"
| "fabs (Num r) = Num \<bar>r\<bar>"

text \<open>\<open>fgt a b\<close> is \<^verbatim>\<open>a > b\<close>, \<open>flt a b\<close> is \<^verbatim>\<open>a < b\<close>, \<open>feq a b\<close> is \<^verbatim>\<open>a == b\<close>;
  each is false when an operand is not-a-number.\<close>

fun fgt :: "double \<Rightarrow> double \<Rightarrow> bool" where
  "fgt NaN b = False"
| "fgt a NaN = False"
| "fgt PInf PInf = False"
| "fgt PInf b = True"
| "fgt a PInf = False"
| "fgt NInf b = False"
| "fgt (Num a) NInf = True"
| "fgt (Num a) (Num b) = (a > b)"

definition flt :: "double \<Rightarrow> double \<Rightarrow> bool" where
  "flt a b = fgt b a"

fun feq :: "double \<Rightarrow> double \<Rightarrow> bool" where
  "feq NaN b = False"
| "feq a NaN = False"
| "feq a b = (a = b)"

fun fsqrt :: "double \<Rightarrow> double" where
  "fsqrt NaN = NaN"
| "fsqrt PInf = PInf"
| "fsqrt NInf = NaN"
| "fsqrt (Num r) = (if r < 0 then NaN else Num (sqrt r))"

fun fneg :: "double \<Rightarrow> double" where
  "fneg NaN = NaN"
| "fneg PInf = NInf"
| "fneg NInf = PInf"
| "fneg (Num r) = Num (- r)"

fun fadd :: "double \<Rightarrow> double \<Rightarrow> double" where
  "fadd NaN b = NaN"
| "fadd a NaN = NaN"
| "fadd PInf NInf = NaN"
| "fadd NInf PInf = NaN"
| "fadd PInf b = PInf"
| "fadd a PInf = PInf"
| "fadd NInf b = NInf"
| "fadd a NInf = NInf"
| "fadd (Num a) (Num b) = Num (a + b)"

text \<open>The infinity of the sign of \<open>s\<close>, for a product or quotient that is infinite.\<close>

definition inf_of_sign :: "real \<Rightarrow> double" where
  "inf_of_sign s = (if s < 0 then NInf else PInf)"

fun fsign :: "double \<Rightarrow> real" where
  "fsign NInf = -1"
| "fsign (Num r) = (if r < 0 then -1 else 1)"
| "fsign a = 1"

fun fmul :: "double \<Rightarrow> double \<Rightarrow> double" where
  "fmul NaN b = NaN"
| "fmul a NaN = NaN"
| "fmul (Num a) (Num b) = Num (a * b)"
| "fmul (Num a) b = (if a = 0 then NaN else inf_of_sign (fsign (Num a) * fsign b))"
| "fmul a (Num b) = (if b = 0 then NaN else inf_of_sign (fsign a * fsign (Num b)))"
| "fmul a b = inf_of_sign (fsign a * fsign b)"

fun fdiv :: "double \<Rightarrow> double \<Rightarrow> double" where
  "fdiv NaN b = NaN"
| "fdiv a NaN = NaN"
| "fdiv (Num a) (Num b) =
     (if b = 0 then (if a = 0 then NaN else inf_of_sign a) else Num (a / b))"
| "fdiv (Num a) b = Num 0"
| "fdiv a (Num b) = inf_of_sign (fsign a * fsign (Num b))"
| "fdiv a b = NaN"

definition fsub :: "double \<Rightarrow> double \<Rightarrow> double" where
  "fsub a b = fadd a (fneg b)"

text \<open>
  The gather is a template over its element type, which only needs the literal 0 and
  \<^verbatim>\<open>+=\<close>; for \<^verbatim>\<open>double\<close> these are the following.
\<close>

instantiation double :: "{zero, plus}"
begin

definition zero_double :: double where
  "zero_double = Num 0"

definition plus_double :: "double \<Rightarrow> double \<Rightarrow> double" where
  "plus_double a b = fadd a b"

instance ..

end

section \<open>The buffers of one node visit\<close>

text \<open>
  \<^verbatim>\<open>evaluate\<close> receives the data of its single dependency and of the forward seeds,
  and writes into buffers supplied by the caller: the output, one forward sensitivity
  and one adjoint sensitivity per direction; the gather also clears its adjoint seeds.
  Each buffer is the \<^verbatim>\<open>data()\<close> vector of a matrix, and a list of buffers is indexed
  by the direction \<open>d\<close>, the only dependency having the index 0 in the sources:
  \<^item> in the norms \<open>fwdSens b ! d\<close> is \<^verbatim>\<open>fwdSens[d]->data()\<close>, \<open>adjSeed b ! d\<close> is
    \<^verbatim>\<open>adjSeed[d]->data()\<close>, \<open>adjSens b ! d\<close> is \<^verbatim>\<open>adjSens[0][d]->data()\<close> and the
    argument \<open>fwdSeed ! d\<close> is \<^verbatim>\<open>fwdSeed[0][d]->data()\<close>;
  \<^item> in the gather they are \<^verbatim>\<open>fwdSens[d][0]\<close>, \<^verbatim>\<open>adjSeed[d][0]\<close>, \<^verbatim>\<open>adjSens[d][0]\<close>
    and \<^verbatim>\<open>fwdSeed[d][0]\<close>.
  A failing evaluation returns the failure alone, without the buffers.
\<close>

record 'a buffers =
  outputd :: "'a list"
  fwdSens :: "'a list list"
  adjSeed :: "'a list list"
  adjSens :: "'a list list"

section \<open>Reduction norms (casadi/mx/norm.cpp)\<close>

text \<open>
  \<open>dep_size\<close> is \<^verbatim>\<open>dep(0).size()\<close>, the number of nonzeros of the dependency, and
  \<open>inputd\<close> the data of its value. Sizes and indices are unbounded integers.
\<close>

subsection \<open>NormInf::evaluate\<close>

definition NormInf_step :: "double list \<Rightarrow> int \<Rightarrow> double \<Rightarrow> error + double" where
  "NormInf_step inputd k temp =
     ebind (vec_get inputd k) (\<lambda>x.
       let a = fabs x in Inr (if fgt a temp then a else temp))"

definition NormInf_evaluate ::
  "int \<Rightarrow> double list \<Rightarrow> double list list \<Rightarrow> double buffers \<Rightarrow> int \<Rightarrow> int
     \<Rightarrow> error + double buffers" where
  "NormInf_evaluate dep_size inputd fwdSeed b nfwd nadj =
     ebind (foreach (range_int dep_size) (NormInf_step inputd) PInf) (\<lambda>temp.
     ebind (vec_set (outputd b) 0 temp) (\<lambda>od.
       if nadj \<noteq> 0 then Inl (CasadiException ''NormInf::evaluate not implemented'')
       else Inr (b\<lparr>outputd := od\<rparr>)))"

subsection \<open>Shared pieces of the norm loops\<close>

text \<open>\<open>get2 vv d k\<close> reads \<^verbatim>\<open>vv[d]->data()[k]\<close>, \<open>set2 vv d k x\<close> writes it.\<close>

definition get2 :: "'a list list \<Rightarrow> int \<Rightarrow> int \<Rightarrow> error + 'a" where
  "get2 vv d k = ebind (vec_get vv d) (\<lambda>v. vec_get v k)"

definition set2 :: "'a list list \<Rightarrow> int \<Rightarrow> int \<Rightarrow> 'a \<Rightarrow> error + 'a list list" where
  "set2 vv d k x =
     ebind (vec_get vv d) (\<lambda>v. ebind (vec_set v k x) (\<lambda>v'. vec_set vv d v'))"

text \<open>\<^verbatim>\<open>temp+=inputd[k]*inputd[k]\<close>, the body of the first loop of both 2-norms.\<close>

definition sumsq_step :: "double list \<Rightarrow> int \<Rightarrow> double \<Rightarrow> error + double" where
  "sumsq_step inputd k temp = ebind (vec_get inputd k) (\<lambda>x. Inr (fadd temp (fmul x x)))"

subsection \<open>Norm2::evaluate\<close>

definition Norm2_fwd_step ::
  "double list \<Rightarrow> double list list \<Rightarrow> int \<Rightarrow> int \<Rightarrow> double buffers \<Rightarrow> error + double buffers" where
  "Norm2_fwd_step inputd fwdSeed d k b =
     ebind (vec_get inputd k) (\<lambda>x.
     ebind (vec_get (outputd b) 0) (\<lambda>r.
     ebind (get2 fwdSeed d k) (\<lambda>s.
     ebind (get2 (fwdSens b) d 0) (\<lambda>a.
     ebind (set2 (fwdSens b) d 0 (fadd a (fmul (fdiv x r) s))) (\<lambda>fs.
       Inr (b\<lparr>fwdSens := fs\<rparr>))))))"

definition Norm2_fwd ::
  "int \<Rightarrow> double list \<Rightarrow> double list list \<Rightarrow> int \<Rightarrow> double buffers \<Rightarrow> error + double buffers" where
  "Norm2_fwd dep_size inputd fwdSeed d b =
     ebind (set2 (fwdSens b) d 0 (Num 0)) (\<lambda>fs.
       foreach (range_int dep_size) (Norm2_fwd_step inputd fwdSeed d) (b\<lparr>fwdSens := fs\<rparr>))"

definition Norm2_adj_step ::
  "double list \<Rightarrow> int \<Rightarrow> int \<Rightarrow> double buffers \<Rightarrow> error + double buffers" where
  "Norm2_adj_step inputd d k b =
     ebind (vec_get inputd k) (\<lambda>x.
     ebind (vec_get (outputd b) 0) (\<lambda>r.
     ebind (get2 (adjSeed b) d 0) (\<lambda>s.
     ebind (get2 (adjSens b) d k) (\<lambda>a.
     ebind (set2 (adjSens b) d k (fadd a (fmul (fdiv x r) s))) (\<lambda>as.
       Inr (b\<lparr>adjSens := as\<rparr>))))))"

definition Norm2_adj ::
  "int \<Rightarrow> double list \<Rightarrow> int \<Rightarrow> double buffers \<Rightarrow> error + double buffers" where
  "Norm2_adj dep_size inputd d b =
     ebind (get2 (adjSeed b) d 0) (\<lambda>s.
       if feq s (Num 0) then Inr b
       else foreach (range_int dep_size) (Norm2_adj_step inputd d) b)"

definition Norm2_evaluate ::
  "int \<Rightarrow> double list \<Rightarrow> double list list \<Rightarrow> double buffers \<Rightarrow> int \<Rightarrow> int
     \<Rightarrow> error + double buffers" where
  "Norm2_evaluate dep_size inputd fwdSeed b nfwd nadj =
     ebind (foreach (range_int dep_size) (sumsq_step inputd) (Num 0)) (\<lambda>temp.
     ebind (vec_set (outputd b) 0 (fsqrt temp)) (\<lambda>od.
     ebind (foreach (range_int nfwd) (Norm2_fwd dep_size inputd fwdSeed) (b\<lparr>outputd := od\<rparr>))
       (\<lambda>b1. foreach (range_int nadj) (Norm2_adj dep_size inputd) b1)))"

subsection \<open>Norm22::evaluate\<close>

definition Norm22_fwd_step ::
  "double list \<Rightarrow> double list list \<Rightarrow> int \<Rightarrow> int \<Rightarrow> double buffers \<Rightarrow> error + double buffers" where
  "Norm22_fwd_step inputd fwdSeed d k b =
     ebind (vec_get inputd k) (\<lambda>x.
     ebind (get2 fwdSeed d k) (\<lambda>s.
     ebind (get2 (fwdSens b) d 0) (\<lambda>a.
     ebind (set2 (fwdSens b) d 0 (fadd a (fmul (fmul (Num 2) x) s))) (\<lambda>fs.
       Inr (b\<lparr>fwdSens := fs\<rparr>)))))"

definition Norm22_fwd ::
  "int \<Rightarrow> double list \<Rightarrow> double list list \<Rightarrow> int \<Rightarrow> double buffers \<Rightarrow> error + double buffers" where
  "Norm22_fwd dep_size inputd fwdSeed d b =
     ebind (set2 (fwdSens b) d 0 (Num 0)) (\<lambda>fs.
       foreach (range_int dep_size) (Norm22_fwd_step inputd fwdSeed d) (b\<lparr>fwdSens := fs\<rparr>))"

definition Norm22_adj_step ::
  "double list \<Rightarrow> int \<Rightarrow> int \<Rightarrow> double buffers \<Rightarrow> error + double buffers" where
  "Norm22_adj_step inputd d k b =
     ebind (vec_get inputd k) (\<lambda>x.
     ebind (get2 (adjSeed b) d 0) (\<lambda>s.
     ebind (get2 (adjSens b) d k) (\<lambda>a.
     ebind (set2 (adjSens b) d k (fadd a (fmul (fmul (Num 2) x) s))) (\<lambda>as.
       Inr (b\<lparr>adjSens := as\<rparr>)))))"

definition Norm22_adj ::
  "int \<Rightarrow> double list \<Rightarrow> int \<Rightarrow> double buffers \<Rightarrow> error + double buffers" where
  "Norm22_adj dep_size inputd d b =
     ebind (get2 (adjSeed b) d 0) (\<lambda>s.
       if feq s (Num 0) then Inr b
       else foreach (range_int dep_size) (Norm22_adj_step inputd d) b)"

definition Norm22_evaluate ::
  "int \<Rightarrow> double list \<Rightarrow> double list list \<Rightarrow> double buffers \<Rightarrow> int \<Rightarrow> int
     \<Rightarrow> error + double buffers" where
  "Norm22_evaluate dep_size inputd fwdSeed b nfwd nadj =
     ebind (foreach (range_int dep_size) (sumsq_step inputd) (Num 0)) (\<lambda>temp.
     ebind (vec_set (outputd b) 0 temp) (\<lambda>od.
     ebind (foreach (range_int nfwd) (Norm22_fwd dep_size inputd fwdSeed) (b\<lparr>outputd := od\<rparr>))
       (\<lambda>b1. foreach (range_int nadj) (Norm22_adj dep_size inputd) b1)))"

subsection \<open>Norm1::evaluate\<close>

definition Norm1_abs_step :: "double list \<Rightarrow> int \<Rightarrow> double \<Rightarrow> error + double" where
  "Norm1_abs_step inputd k temp = ebind (vec_get inputd k) (\<lambda>x. Inr (fadd temp (fabs x)))"

definition Norm1_fwd_step ::
  "double list \<Rightarrow> double list list \<Rightarrow> int \<Rightarrow> int \<Rightarrow> double buffers \<Rightarrow> error + double buffers" where
  "Norm1_fwd_step inputd fwdSeed d k b =
     ebind (get2 fwdSeed d k) (\<lambda>s.
       if feq s (Num 0) then Inr b
       else
         ebind (vec_get inputd k) (\<lambda>x.
         ebind (get2 (fwdSens b) d 0) (\<lambda>a.
         ebind (set2 (fwdSens b) d 0
                  (if flt x (Num 0) then fsub a s
               else if fgt x (Num 0) then fadd a s else fadd a NaN)) (\<lambda>fs.
           Inr (b\<lparr>fwdSens := fs\<rparr>)))))"

definition Norm1_fwd ::
  "int \<Rightarrow> double list \<Rightarrow> double list list \<Rightarrow> int \<Rightarrow> double buffers \<Rightarrow> error + double buffers" where
  "Norm1_fwd dep_size inputd fwdSeed d b =
     ebind (set2 (fwdSens b) d 0 (Num 0)) (\<lambda>fs.
       foreach (range_int dep_size) (Norm1_fwd_step inputd fwdSeed d) (b\<lparr>fwdSens := fs\<rparr>))"

definition Norm1_adj_step ::
  "double list \<Rightarrow> int \<Rightarrow> int \<Rightarrow> double buffers \<Rightarrow> error + double buffers" where
  "Norm1_adj_step inputd d k b =
     ebind (vec_get inputd k) (\<lambda>x.
     ebind (get2 (adjSeed b) d 0) (\<lambda>s.
     ebind (get2 (adjSens b) d k) (\<lambda>a.
     ebind (set2 (adjSens b) d k
              (if flt x (Num 0) then fsub a s
               else if fgt x (Num 0) then fadd a s else fadd a NaN)) (\<lambda>as.
       Inr (b\<lparr>adjSens := as\<rparr>)))))"

definition Norm1_adj ::
  "int \<Rightarrow> double list \<Rightarrow> int \<Rightarrow> double buffers \<Rightarrow> error + double buffers" where
  "Norm1_adj dep_size inputd d b =
     ebind (get2 (adjSeed b) d 0) (\<lambda>s.
       if feq s (Num 0) then Inr b
       else foreach (range_int dep_size) (Norm1_adj_step inputd d) b)"

definition Norm1_evaluate ::
  "int \<Rightarrow> double list \<Rightarrow> double list list \<Rightarrow> double buffers \<Rightarrow> int \<Rightarrow> int
     \<Rightarrow> error + double buffers" where
  "Norm1_evaluate dep_size inputd fwdSeed b nfwd nadj =
     (if nfwd = 0 \<and> nadj = 0 then
        ebind (foreach (range_int dep_size) (Norm1_abs_step inputd) (Num 0)) (\<lambda>temp.
        ebind (vec_set (outputd b) 0 temp) (\<lambda>od. Inr (b\<lparr>outputd := od\<rparr>)))
      else
        ebind (foreach (range_int nfwd) (Norm1_fwd dep_size inputd fwdSeed) b)
          (\<lambda>b1. foreach (range_int nadj) (Norm1_adj dep_size inputd) b1))"

section \<open>Nonzero selection (symbolic/mx/getnonzeros.cpp)\<close>

subsection \<open>GetNonzeros::evaluateGen\<close>

text \<open>
  The function is a template over the element type \<^verbatim>\<open>T\<close> (\<^verbatim>\<open>double\<close> or a symbolic
  scalar); it uses the literal 0 and \<^verbatim>\<open>+=\<close> of \<^verbatim>\<open>T\<close> only. The loops run over the
  entries \<open>k\<close> of \<^verbatim>\<open>nz_\<close> while an iterator walks the target; the model pairs each
  entry with the position \<open>i\<close> of that iterator.

  \<open>select_nz src k\<close> is \<^verbatim>\<open>*k>=0 ? src[*k] : 0\<close>.
\<close>

definition select_nz :: "'a::zero list \<Rightarrow> int \<Rightarrow> error + 'a" where
  "select_nz src k = (if k \<ge> 0 then vec_get src k else Inr 0)"

definition gather_step :: "'a::zero list \<Rightarrow> nat \<times> int \<Rightarrow> 'a list \<Rightarrow> error + 'a list" where
  "gather_step src = (\<lambda>(i, k) dst. ebind (select_nz src k) (\<lambda>v. vec_set dst (int i) v))"

definition gather_loop :: "int list \<Rightarrow> 'a::zero list \<Rightarrow> 'a list \<Rightarrow> error + 'a list" where
  "gather_loop nz src dst = foreach (enumerate 0 nz) (gather_step src) dst"

text \<open>
  The body of the reverse loops, \<^verbatim>\<open>if(*k>=0) sens[*k] += *seed_it; *seed_it++ = 0;\<close>,
  with the accumulating operation \<open>acc\<close> (\<^verbatim>\<open>+=\<close> in \<^verbatim>\<open>evaluateGen\<close>, \<^verbatim>\<open>|=\<close> in
  \<^verbatim>\<open>propagateSparsity\<close>). The state is the pair of the seed and the sensitivity vector.
\<close>

definition scatter_step ::
  "('a \<Rightarrow> 'a \<Rightarrow> 'a) \<Rightarrow> nat \<times> int \<Rightarrow> 'a::zero list \<times> 'a list \<Rightarrow> error + ('a list \<times> 'a list)" where
  "scatter_step acc = (\<lambda>(i, k) (seed, sens).
     ebind (if k \<ge> 0 then
              ebind (vec_get seed (int i)) (\<lambda>s.
              ebind (vec_get sens k) (\<lambda>a. vec_set sens k (acc a s)))
            else Inr sens) (\<lambda>sens'.
     ebind (vec_set seed (int i) 0) (\<lambda>seed'. Inr (seed', sens'))))"

definition scatter_loop ::
  "('a \<Rightarrow> 'a \<Rightarrow> 'a) \<Rightarrow> int list \<Rightarrow> 'a::zero list \<Rightarrow> 'a list \<Rightarrow> error + ('a list \<times> 'a list)" where
  "scatter_loop acc nz seed sens = foreach (enumerate 0 nz) (scatter_step acc) (seed, sens)"

definition evaluateGen_fwd ::
  "int list \<Rightarrow> 'a::{zero,plus} list list \<Rightarrow> int \<Rightarrow> 'a buffers \<Rightarrow> error + 'a buffers" where
  "evaluateGen_fwd nz fwdSeed d b =
     ebind (vec_get fwdSeed d) (\<lambda>fseed.
     ebind (vec_get (fwdSens b) d) (\<lambda>fsens.
     ebind (gather_loop nz fseed fsens) (\<lambda>fsens'.
     ebind (vec_set (fwdSens b) d fsens') (\<lambda>fs. Inr (b\<lparr>fwdSens := fs\<rparr>)))))"

definition evaluateGen_adj ::
  "int list \<Rightarrow> int \<Rightarrow> 'a::{zero,plus} buffers \<Rightarrow> error + 'a buffers" where
  "evaluateGen_adj nz d b =
     ebind (vec_get (adjSeed b) d) (\<lambda>aseed.
     ebind (vec_get (adjSens b) d) (\<lambda>asens.
     ebind (scatter_loop (+) nz aseed asens) (\<lambda>(aseed', asens').
     ebind (vec_set (adjSeed b) d aseed') (\<lambda>sd.
     ebind (vec_set (adjSens b) d asens') (\<lambda>sn.
       Inr (b\<lparr>adjSeed := sd, adjSens := sn\<rparr>))))))"

definition evaluateGen ::
  "int list \<Rightarrow> 'a::{zero,plus} list \<Rightarrow> 'a list list \<Rightarrow> 'a buffers \<Rightarrow> error + 'a buffers" where
  "evaluateGen nz idata fwdSeed b =
     (let nadj = int (length (adjSeed b)); nfwd = int (length (fwdSens b)) in
      ebind (gather_loop nz idata (outputd b)) (\<lambda>od.
      ebind (foreach (range_int nfwd) (evaluateGen_fwd nz fwdSeed) (b\<lparr>outputd := od\<rparr>)) (\<lambda>b1.
        foreach (range_int nadj) (evaluateGen_adj nz) b1)))"

subsection \<open>GetNonzeros::propagateSparsity\<close>

text \<open>
  \<^verbatim>\<open>bvec_t\<close> is an unsigned machine word holding one dependency bit per direction;
  its width is left open. The function returns the input and the output vector.
\<close>

definition propagateSparsity ::
  "int list \<Rightarrow> 'w::len word list \<Rightarrow> 'w word list \<Rightarrow> bool
     \<Rightarrow> error + ('w word list \<times> 'w word list)" where
  "propagateSparsity nz inputd outd fwd =
     (if fwd then ebind (gather_loop nz inputd outd) (\<lambda>od. Inr (inputd, od))
      else ebind (scatter_loop (OR) nz outd inputd) (\<lambda>(od, ind). Inr (ind, od)))"

subsection \<open>Sparsity patterns and expression nodes\<close>

text \<open>
  Of a compressed-row sparsity pattern the sources use the dimensions, the column of
  each nonzero and the row offsets; two patterns are equal when these are. The number
  of nonzeros, \<^verbatim>\<open>size()\<close>, is the length of \<open>col\<close>.
\<close>

record CRSSparsity =
  size1 :: int
  size2 :: int
  col :: "int list"
  rowind :: "int list"

text \<open>An expression is a leaf or a gather node with its pattern, its mapping
  \<^verbatim>\<open>nz_\<close> and its dependency.\<close>

datatype MX = Symbolic string CRSSparsity | GetNonzeros CRSSparsity "int list" MX

fun sparsity :: "MX \<Rightarrow> CRSSparsity" where
  "sparsity (Symbolic n sp) = sp"
| "sparsity (GetNonzeros sp nz y) = sp"

subsection \<open>GetNonzeros::isIdentity\<close>

fun nz_in_order :: "int list \<Rightarrow> int \<Rightarrow> bool" where
  "nz_in_order [] k = True"
| "nz_in_order (x # xs) k = (if x \<noteq> k then False else nz_in_order xs (k + 1))"

text \<open>\<open>isIdentity sp nz y\<close> is the method on the node with pattern \<open>sp\<close>, mapping
  \<open>nz\<close> and dependency \<open>y\<close>.\<close>

definition isIdentity :: "CRSSparsity \<Rightarrow> int list \<Rightarrow> MX \<Rightarrow> bool" where
  "isIdentity sp nz y = (if \<not> (sp = sparsity y) then False else nz_in_order nz 0)"

subsection \<open>GetNonzeros::getGetNonzeros\<close>

text \<open>The loop \<^verbatim>\<open>*i = nz_[*i]\<close> over a copy of the argument.\<close>

fun remap_nz :: "int list \<Rightarrow> int list \<Rightarrow> error + int list" where
  "remap_nz nz_this [] = Inr []"
| "remap_nz nz_this (i # is) =
     ebind (vec_get nz_this i) (\<lambda>v. ebind (remap_nz nz_this is) (\<lambda>vs. Inr (v # vs)))"

text \<open>
  Modelled from the spec: the \<^verbatim>\<open>getGetNonzeros\<close> of a node that is not a gather (the
  base class method) is not in the sources; building a gather on such a node yields
  the single gather node with the given pattern and mapping. On a gather node the
  method is the one of getnonzeros.cpp: it remaps and hands over to its dependency.
\<close>

fun getGetNonzeros :: "MX \<Rightarrow> CRSSparsity \<Rightarrow> int list \<Rightarrow> error + MX" where
  "getGetNonzeros (GetNonzeros osp nz_this y) sp nz =
     (case remap_nz nz_this nz of Inl e \<Rightarrow> Inl e | Inr nz_new \<Rightarrow> getGetNonzeros y sp nz_new)"
| "getGetNonzeros (Symbolic n s) sp nz = Inr (GetNonzeros sp nz (Symbolic n s))"

text \<open>
  The value of an expression, leaves first: a gather node is evaluated by
  \<^verbatim>\<open>evaluateGen\<close> without directions on the value of its dependency, into an output
  buffer with one entry per nonzero of its pattern.
\<close>

fun value_of :: "(string \<Rightarrow> 'a list) \<Rightarrow> MX \<Rightarrow> error + 'a::{zero,plus} list" where
  "value_of env (Symbolic n sp) = Inr (env n)"
| "value_of env (GetNonzeros sp nz y) =
     (case value_of env y of Inl e \<Rightarrow> Inl e
      | Inr idata \<Rightarrow>
          (case evaluateGen nz idata []
                  \<lparr>outputd = replicate (length (col sp)) 0, fwdSens = [], adjSeed = [],
                   adjSens = []\<rparr> of
             Inl e \<Rightarrow> Inl e
           | Inr b \<Rightarrow> Inr (outputd b)))"

subsection \<open>GetNonzeros::evaluateMX, up to the construction of the derivative nodes\<close>

text \<open>
  Modelled from the spec: the macro \<^verbatim>\<open>casadi_assert_message\<close> is not in the sources; a
  failed assertion raises the fatal condition with the message.
\<close>

definition casadi_assert_message :: "bool \<Rightarrow> string \<Rightarrow> error + unit" where
  "casadi_assert_message c msg = (if c then Inr () else Inl (CasadiException msg))"

definition count_step :: "int \<Rightarrow> int list \<Rightarrow> error + int list" where
  "count_step it inz_count =
     ebind (casadi_assert_message (it \<ge> 0) ''Not implemented'') (\<lambda>_.
     ebind (vec_get inz_count (it + 1)) (\<lambda>c. vec_set inz_count (it + 1) (c + 1)))"

definition cumsum_step :: "int \<Rightarrow> int list \<Rightarrow> error + int list" where
  "cumsum_step i inz_count =
     ebind (vec_get inz_count (i + 1)) (\<lambda>a.
     ebind (vec_get inz_count i) (\<lambda>c. vec_set inz_count (i + 1) (a + c)))"

text \<open>\<^verbatim>\<open>nz_order[inz_count[nz_[k]]++] = k\<close>; the state is \<open>(nz_order, inz_count)\<close>.\<close>

definition order_step ::
  "int list \<Rightarrow> int \<Rightarrow> int list \<times> int list \<Rightarrow> error + (int list \<times> int list)" where
  "order_step nz k = (\<lambda>(nz_order, inz_count).
     ebind (vec_get nz k) (\<lambda>nzk.
     ebind (vec_get inz_count nzk) (\<lambda>idx.
     ebind (vec_set inz_count nzk (idx + 1)) (\<lambda>inz_count'.
     ebind (vec_set nz_order idx k) (\<lambda>nz_order'. Inr (nz_order', inz_count'))))))"

definition el_step ::
  "int list \<Rightarrow> int list \<Rightarrow> int list \<Rightarrow> int list \<Rightarrow> int \<Rightarrow> int \<Rightarrow> int list \<Rightarrow> error + int list" where
  "el_step nz nz_order irow icol isp_size1 k el_input =
     ebind (vec_get nz_order k) (\<lambda>j.
     ebind (vec_get nz j) (\<lambda>inz_k.
     ebind (vec_get irow inz_k) (\<lambda>r.
     ebind (vec_get icol inz_k) (\<lambda>c. vec_set el_input k (r + c * isp_size1)))))"

text \<open>\<^verbatim>\<open>v.resize(n)\<close> on a vector of integers: cut, or filled up with zeros.\<close>

definition resize :: "int list \<Rightarrow> nat \<Rightarrow> int list" where
  "resize v n = take n v @ replicate (n - length v) 0"

text \<open>
  \<open>icol\<close> and \<open>irow\<close> are the columns and rows of the nonzeros of the dependency's
  pattern and \<open>isp_size1\<close> its first dimension. The rest of the function builds the
  derivative nodes from \<open>nz_order\<close> and \<open>el_input\<close> with operations on patterns and
  nodes that are not in the sources; it is the parameter \<open>build\<close>.
\<close>

definition evaluateMX ::
  "int list \<Rightarrow> int list \<Rightarrow> int list \<Rightarrow> int \<Rightarrow> (int list \<Rightarrow> int list \<Rightarrow> error + 'r)
     \<Rightarrow> error + 'r" where
  "evaluateMX nz icol irow isp_size1 build =
     ebind (foreach nz count_step (replicate (length icol + 1) 0)) (\<lambda>inz_count.
     ebind (foreach (range_int (int (length icol))) cumsum_step inz_count) (\<lambda>inz_count.
     ebind (foreach (range_int (int (length nz))) (order_step nz)
              (replicate (length nz) 0, inz_count)) (\<lambda>(nz_order, inz_count).
     ebind (foreach (range_int (int (length nz))) (el_step nz nz_order irow icol isp_size1)
              (resize inz_count (length nz))) (\<lambda>el_input.
       build nz_order el_input))))"

subsection \<open>Reference functions for the statements\<close>

text \<open>
  The gather as the specification words it: entry \<open>i\<close> of the result is
  \<open>src[nz[i]]\<close>, or 0 where \<open>nz[i]\<close> is negative.
\<close>

definition gathered :: "'a::zero list \<Rightarrow> int list \<Rightarrow> 'a list" where
  "gathered src nz = map (\<lambda>k. if 0 \<le> k then src ! nat k else 0) nz"

text \<open>
  The accumulation as the specification words it: going through the positions in
  order, the seed of a position with a nonnegative index is accumulated at that index.
\<close>

fun scatter :: "('a \<Rightarrow> 'a \<Rightarrow> 'a) \<Rightarrow> int list \<Rightarrow> 'a list \<Rightarrow> 'a list \<Rightarrow> 'a list" where
  "scatter acc (k # ks) (s # ss) sens =
     scatter acc ks ss (if 0 \<le> k then sens[nat k := acc (sens ! nat k) s] else sens)"
| "scatter acc ks ss sens = sens"

text \<open>
  The shape of the arguments of a visit: every index of \<open>nz\<close> below the size of each
  vector it reads or accumulates into, and one entry per index in each vector it
  writes in order. \<^verbatim>\<open>evaluateGen\<close> takes the number of forward directions from
  \<^verbatim>\<open>fwdSens\<close> and the number of adjoint directions from \<^verbatim>\<open>adjSeed\<close>.
\<close>

definition nz_within :: "int list \<Rightarrow> 'a list \<Rightarrow> bool" where
  "nz_within nz v = (\<forall>k \<in> set nz. k < int (length v))"

definition buffers_fit :: "int list \<Rightarrow> 'a list \<Rightarrow> 'a list list \<Rightarrow> 'a buffers \<Rightarrow> bool" where
  "buffers_fit nz idata fwdSeed b =
     (nz_within nz idata \<and> length (outputd b) = length nz
      \<and> length (fwdSens b) \<le> length fwdSeed
      \<and> (\<forall>v \<in> set (fwdSens b). length v = length nz)
      \<and> (\<forall>v \<in> set (take (length (fwdSens b)) fwdSeed). nz_within nz v)
      \<and> length (adjSeed b) \<le> length (adjSens b)
      \<and> (\<forall>v \<in> set (adjSeed b). length v = length nz)
      \<and> (\<forall>v \<in> set (take (length (adjSeed b)) (adjSens b)). nz_within nz v))"

text \<open>What an evaluation must keep for direction \<open>j\<close> when it does not accumulate
  into it: the adjoint seeds and the sensitivity buffer of \<open>j\<close>.\<close>

definition adj_frame :: "double buffers \<Rightarrow> nat \<Rightarrow> double buffers \<Rightarrow> bool" where
  "adj_frame b j b' = (adjSeed b' = adjSeed b \<and> adjSens b' ! j = adjSens b ! j)"

text \<open>
  The shape of the arguments of a norm's visit: the dependency data covers the
  \<open>dep_size\<close> nonzeros, and for each direction in range there are a nonempty scalar
  buffer and a vector of at least \<open>dep_size\<close> entries. \<open>same_shape\<close> is what every loop
  keeps of the buffers.
\<close>

definition norm_fit ::
  "int \<Rightarrow> double list \<Rightarrow> double list list \<Rightarrow> double buffers \<Rightarrow> int \<Rightarrow> int \<Rightarrow> bool" where
  "norm_fit dep_size inputd fwdSeed b nfwd nadj =
     (dep_size \<le> int (length inputd) \<and> outputd b \<noteq> []
      \<and> nfwd \<le> int (length (fwdSens b)) \<and> (\<forall>v \<in> set (take (nat nfwd) (fwdSens b)). v \<noteq> [])
      \<and> nfwd \<le> int (length fwdSeed)
      \<and> (\<forall>v \<in> set (take (nat nfwd) fwdSeed). dep_size \<le> int (length v))
      \<and> nadj \<le> int (length (adjSeed b)) \<and> (\<forall>v \<in> set (take (nat nadj) (adjSeed b)). v \<noteq> [])
      \<and> nadj \<le> int (length (adjSens b))
      \<and> (\<forall>v \<in> set (take (nat nadj) (adjSens b)). dep_size \<le> int (length v)))"

definition same_shape :: "double buffers \<Rightarrow> double buffers \<Rightarrow> bool" where
  "same_shape b t =
     (length (outputd t) = length (outputd b)
      \<and> map length (fwdSens t) = map length (fwdSens b)
      \<and> adjSeed t = adjSeed b
      \<and> map length (adjSens t) = map length (adjSens b))"

section \<open>Properties\<close>

subsection \<open>What a loop preserves\<close>

lemma foreach_invariant:
  assumes "foreach xs body s = Inr s'" and "P s"
    and "\<And>i t t'. i \<in> set xs \<Longrightarrow> P t \<Longrightarrow> body i t = Inr t' \<Longrightarrow> P t'"
  shows "P s'"
  using assms
proof (induction xs arbitrary: s)
  case Nil
  then show ?case by simp
next
  case (Cons x xs)
  from Cons.prems(1) obtain t where t: "body x s = Inr t" and rest: "foreach xs body t = Inr s'"
    by (auto split: sum.splits)
  have "P t" using Cons.prems(3) [of x s t] Cons.prems(2) t by simp
  moreover have "P u'" if "i \<in> set xs" "P u" "body i u = Inr u'" for i u u'
    using Cons.prems(3) [of i u u'] that by simp
  ultimately show ?case
    using rest Cons.IH [of t] by blast
qed

lemma set2_other_rows:
  "set2 vv d k x = Inr vv' \<Longrightarrow> j \<noteq> nat d \<Longrightarrow> vv' ! j = vv ! j"
  by (auto simp: set2_def ebind_def vec_get_def vec_set_def split: if_splits)

lemma get2_nonneg: "get2 vv d k = Inr x \<Longrightarrow> 0 \<le> d"
  by (auto simp: get2_def ebind_def vec_get_def split: if_splits)

subsection \<open>The adjoint loops of the norms touch one direction each\<close>

lemma adj_frame_refl: "adj_frame b j b"
  by (simp add: adj_frame_def)

lemma Norm2_adj_step_frame:
  "Norm2_adj_step inputd d k t = Inr t' \<Longrightarrow> j \<noteq> nat d \<Longrightarrow> adj_frame b j t \<Longrightarrow> adj_frame b j t'"
  by (auto simp: Norm2_adj_step_def adj_frame_def ebind_def set2_other_rows
      split: sum.splits)

lemma Norm22_adj_step_frame:
  "Norm22_adj_step inputd d k t = Inr t' \<Longrightarrow> j \<noteq> nat d \<Longrightarrow> adj_frame b j t \<Longrightarrow> adj_frame b j t'"
  by (auto simp: Norm22_adj_step_def adj_frame_def ebind_def set2_other_rows
      split: sum.splits)

lemma Norm1_adj_step_frame:
  "Norm1_adj_step inputd d k t = Inr t' \<Longrightarrow> j \<noteq> nat d \<Longrightarrow> adj_frame b j t \<Longrightarrow> adj_frame b j t'"
  by (auto simp: Norm1_adj_step_def adj_frame_def ebind_def set2_other_rows
      split: sum.splits)

lemma Norm2_adj_frame:
  assumes run: "Norm2_adj dep_size inputd d t = Inr t'"
    and seed: "get2 (adjSeed b) (int j) 0 = Inr s" "feq s (Num 0)"
    and inv: "adj_frame b j t"
  shows "adj_frame b j t'"
proof (cases "d = int j")
  case True
  with run seed inv show ?thesis
    by (simp add: Norm2_adj_def ebind_def adj_frame_def)
next
  case False
  from run obtain s' where s': "get2 (adjSeed t) d 0 = Inr s'"
    by (auto simp: Norm2_adj_def ebind_def split: sum.splits)
  with False have ne: "j \<noteq> nat d"
    using get2_nonneg [OF s'] by auto
  show ?thesis
  proof (cases "feq s' (Num 0)")
    case True
    with run s' inv show ?thesis by (simp add: Norm2_adj_def ebind_def)
  next
    case False
    with run s' have "foreach (range_int dep_size) (Norm2_adj_step inputd d) t = Inr t'"
      by (simp add: Norm2_adj_def ebind_def)
    then show ?thesis
      using inv by (rule foreach_invariant) (rule Norm2_adj_step_frame [OF _ ne])
  qed
qed

lemma Norm22_adj_frame:
  assumes run: "Norm22_adj dep_size inputd d t = Inr t'"
    and seed: "get2 (adjSeed b) (int j) 0 = Inr s" "feq s (Num 0)"
    and inv: "adj_frame b j t"
  shows "adj_frame b j t'"
proof (cases "d = int j")
  case True
  with run seed inv show ?thesis
    by (simp add: Norm22_adj_def ebind_def adj_frame_def)
next
  case False
  from run obtain s' where s': "get2 (adjSeed t) d 0 = Inr s'"
    by (auto simp: Norm22_adj_def ebind_def split: sum.splits)
  with False have ne: "j \<noteq> nat d"
    using get2_nonneg [OF s'] by auto
  show ?thesis
  proof (cases "feq s' (Num 0)")
    case True
    with run s' inv show ?thesis by (simp add: Norm22_adj_def ebind_def)
  next
    case False
    with run s' have "foreach (range_int dep_size) (Norm22_adj_step inputd d) t = Inr t'"
      by (simp add: Norm22_adj_def ebind_def)
    then show ?thesis
      using inv by (rule foreach_invariant) (rule Norm22_adj_step_frame [OF _ ne])
  qed
qed

lemma Norm1_adj_frame:
  assumes run: "Norm1_adj dep_size inputd d t = Inr t'"
    and seed: "get2 (adjSeed b) (int j) 0 = Inr s" "feq s (Num 0)"
    and inv: "adj_frame b j t"
  shows "adj_frame b j t'"
proof (cases "d = int j")
  case True
  with run seed inv show ?thesis
    by (simp add: Norm1_adj_def ebind_def adj_frame_def)
next
  case False
  from run obtain s' where s': "get2 (adjSeed t) d 0 = Inr s'"
    by (auto simp: Norm1_adj_def ebind_def split: sum.splits)
  with False have ne: "j \<noteq> nat d"
    using get2_nonneg [OF s'] by auto
  show ?thesis
  proof (cases "feq s' (Num 0)")
    case True
    with run s' inv show ?thesis by (simp add: Norm1_adj_def ebind_def)
  next
    case False
    with run s' have "foreach (range_int dep_size) (Norm1_adj_step inputd d) t = Inr t'"
      by (simp add: Norm1_adj_def ebind_def)
    then show ?thesis
      using inv by (rule foreach_invariant) (rule Norm1_adj_step_frame [OF _ ne])
  qed
qed

text \<open>The forward loops write forward sensitivities only.\<close>

lemma Norm2_fwd_frame:
  assumes "Norm2_fwd dep_size inputd fwdSeed d t = Inr t'" and "adj_frame b j t"
  shows "adj_frame b j t'"
proof -
  from assms(1) obtain fs where
    "foreach (range_int dep_size) (Norm2_fwd_step inputd fwdSeed d) (t\<lparr>fwdSens := fs\<rparr>) = Inr t'"
    by (auto simp: Norm2_fwd_def ebind_def split: sum.splits)
  then show ?thesis
  proof (rule foreach_invariant)
    show "adj_frame b j (t\<lparr>fwdSens := fs\<rparr>)"
      using assms(2) by (simp add: adj_frame_def)
  qed (auto simp: Norm2_fwd_step_def adj_frame_def ebind_def split: sum.splits)
qed

lemma Norm22_fwd_frame:
  assumes "Norm22_fwd dep_size inputd fwdSeed d t = Inr t'" and "adj_frame b j t"
  shows "adj_frame b j t'"
proof -
  from assms(1) obtain fs where
    "foreach (range_int dep_size) (Norm22_fwd_step inputd fwdSeed d) (t\<lparr>fwdSens := fs\<rparr>) = Inr t'"
    by (auto simp: Norm22_fwd_def ebind_def split: sum.splits)
  then show ?thesis
  proof (rule foreach_invariant)
    show "adj_frame b j (t\<lparr>fwdSens := fs\<rparr>)"
      using assms(2) by (simp add: adj_frame_def)
  qed (auto simp: Norm22_fwd_step_def adj_frame_def ebind_def split: sum.splits)
qed

lemma Norm1_fwd_frame:
  assumes "Norm1_fwd dep_size inputd fwdSeed d t = Inr t'" and "adj_frame b j t"
  shows "adj_frame b j t'"
proof -
  from assms(1) obtain fs where
    "foreach (range_int dep_size) (Norm1_fwd_step inputd fwdSeed d) (t\<lparr>fwdSens := fs\<rparr>) = Inr t'"
    by (auto simp: Norm1_fwd_def ebind_def split: sum.splits)
  then show ?thesis
  proof (rule foreach_invariant)
    show "adj_frame b j (t\<lparr>fwdSens := fs\<rparr>)"
      using assms(2) by (simp add: adj_frame_def)
  qed (auto simp: Norm1_fwd_step_def adj_frame_def ebind_def split: sum.splits if_splits)
qed

lemma Norm2_evaluate_frame:
  assumes run: "Norm2_evaluate dep_size inputd fwdSeed b nfwd nadj = Inr b'"
    and seed: "get2 (adjSeed b) (int j) 0 = Inr s" "feq s (Num 0)"
  shows "adj_frame b j b'"
proof -
  from run obtain od b1 where
    f: "foreach (range_int nfwd) (Norm2_fwd dep_size inputd fwdSeed) (b\<lparr>outputd := od\<rparr>) = Inr b1"
    and a: "foreach (range_int nadj) (Norm2_adj dep_size inputd) b1 = Inr b'"
    by (auto simp: Norm2_evaluate_def ebind_def split: sum.splits)
  have "adj_frame b j (b\<lparr>outputd := od\<rparr>)" by (simp add: adj_frame_def)
  with f have "adj_frame b j b1"
    by (rule foreach_invariant) (rule Norm2_fwd_frame)
  with a show ?thesis
    by (rule foreach_invariant) (rule Norm2_adj_frame [OF _ seed])
qed

lemma Norm22_evaluate_frame:
  assumes run: "Norm22_evaluate dep_size inputd fwdSeed b nfwd nadj = Inr b'"
    and seed: "get2 (adjSeed b) (int j) 0 = Inr s" "feq s (Num 0)"
  shows "adj_frame b j b'"
proof -
  from run obtain od b1 where
    f: "foreach (range_int nfwd) (Norm22_fwd dep_size inputd fwdSeed) (b\<lparr>outputd := od\<rparr>) = Inr b1"
    and a: "foreach (range_int nadj) (Norm22_adj dep_size inputd) b1 = Inr b'"
    by (auto simp: Norm22_evaluate_def ebind_def split: sum.splits)
  have "adj_frame b j (b\<lparr>outputd := od\<rparr>)" by (simp add: adj_frame_def)
  with f have "adj_frame b j b1"
    by (rule foreach_invariant) (rule Norm22_fwd_frame)
  with a show ?thesis
    by (rule foreach_invariant) (rule Norm22_adj_frame [OF _ seed])
qed

lemma Norm1_evaluate_frame:
  assumes run: "Norm1_evaluate dep_size inputd fwdSeed b nfwd nadj = Inr b'"
    and seed: "get2 (adjSeed b) (int j) 0 = Inr s" "feq s (Num 0)"
  shows "adj_frame b j b'"
proof (cases "nfwd = 0 \<and> nadj = 0")
  case True
  with run show ?thesis
    by (auto simp: Norm1_evaluate_def ebind_def adj_frame_def split: sum.splits)
next
  case False
  with run obtain b1 where
    f: "foreach (range_int nfwd) (Norm1_fwd dep_size inputd fwdSeed) b = Inr b1"
    and a: "foreach (range_int nadj) (Norm1_adj dep_size inputd) b1 = Inr b'"
    by (auto simp: Norm1_evaluate_def ebind_def split: sum.splits)
  from f adj_frame_refl have "adj_frame b j b1"
    by (rule foreach_invariant) (rule Norm1_fwd_frame)
  with a show ?thesis
    by (rule foreach_invariant) (rule Norm1_adj_frame [OF _ seed])
qed

subsection \<open>The loops of the gather in closed form\<close>

lemma foreach_append:
  "foreach (xs @ ys) body s = ebind (foreach xs body s) (foreach ys body)"
  by (induction xs arbitrary: s) (auto simp: ebind_def split: sum.splits)

lemma gather_foreach:
  assumes "\<forall>k \<in> set ks. k < int (length src)" and "n + length ks \<le> length dst"
  shows "foreach (enumerate n ks) (gather_step src) dst
           = Inr (take n dst @ gathered src ks @ drop (n + length ks) dst)"
  using assms
proof (induction ks arbitrary: n dst)
  case Nil
  then show ?case by (simp add: gathered_def)
next
  case (Cons k ks)
  let ?v = "if 0 \<le> k then src ! nat k else 0"
  have sel: "select_nz src k = Inr ?v"
    using Cons.prems(1) by (simp add: select_nz_def vec_get_def)
  have n: "n < length dst" using Cons.prems(2) by simp
  have step: "gather_step src (n, k) dst = Inr (dst[n := ?v])"
    using sel n by (simp add: gather_step_def ebind_def vec_set_def)
  have "foreach (enumerate (Suc n) ks) (gather_step src) (dst[n := ?v])
          = Inr (take (Suc n) (dst[n := ?v]) @ gathered src ks
                 @ drop (Suc n + length ks) (dst[n := ?v]))"
    using Cons.prems by (intro Cons.IH) simp_all
  moreover have "take (Suc n) (dst[n := ?v]) = take n dst @ [?v]"
    using n by (simp add: take_Suc_conv_app_nth)
  ultimately show ?case
    using step by (simp add: gathered_def)
qed

lemma gather_loop_eq:
  assumes "\<forall>k \<in> set nz. k < int (length src)" and "length dst = length nz"
  shows "gather_loop nz src dst = Inr (gathered src nz)"
  using gather_foreach [OF assms(1), of 0 dst] assms(2)
  by (simp add: gather_loop_def)

lemma scatter_foreach:
  assumes "\<forall>k \<in> set ks. k < int (length sens)" and "n + length ks \<le> length seed"
  shows "foreach (enumerate n ks) (scatter_step acc) (seed, sens)
           = Inr (take n seed @ replicate (length ks) 0 @ drop (n + length ks) seed,
                  scatter acc ks (take (length ks) (drop n seed)) sens)"
  using assms
proof (induction ks arbitrary: n seed sens)
  case Nil
  then show ?case by simp
next
  case (Cons k ks)
  let ?s = "seed ! n"
  let ?sens = "if 0 \<le> k then sens[nat k := acc (sens ! nat k) ?s] else sens"
  have n: "n < length seed" using Cons.prems(2) by simp
  have step: "scatter_step acc (n, k) (seed, sens) = Inr (seed[n := 0], ?sens)"
    using n Cons.prems(1) by (simp add: scatter_step_def ebind_def vec_get_def vec_set_def)
  have len: "length ?sens = length sens" by simp
  have "foreach (enumerate (Suc n) ks) (scatter_step acc) (seed[n := 0], ?sens)
          = Inr (take (Suc n) (seed[n := 0]) @ replicate (length ks) 0
                   @ drop (Suc n + length ks) (seed[n := 0]),
                 scatter acc ks (take (length ks) (drop (Suc n) (seed[n := 0]))) ?sens)"
    using Cons.prems by (intro Cons.IH) (simp_all only: len, simp_all)
  moreover have "take (Suc n) (seed[n := 0]) = take n seed @ [0]"
    using n by (simp add: take_Suc_conv_app_nth)
  moreover have "take (length (k # ks)) (drop n seed) = ?s # take (length ks) (drop (Suc n) seed)"
    using n by (simp add: Cons_nth_drop_Suc [symmetric])
  ultimately show ?case
    using step by (simp add: replicate_app_Cons_same)
qed

lemma length_scatter: "length (scatter acc ks ss sens) = length sens"
  by (induction acc ks ss sens rule: scatter.induct) simp_all

lemma scatter_nth:
  "j < length sens \<Longrightarrow>
   scatter acc ks ss sens ! j
     = foldl acc (sens ! j) (map snd (filter (\<lambda>(k, s). k = int j) (zip ks ss)))"
proof (induction acc ks ss sens rule: scatter.induct)
  case (1 acc k ks s ss sens)
  then show ?case by (auto simp: nth_list_update)
qed simp_all

lemma range_int_Suc: "range_int (int (Suc m)) = range_int (int m) @ [int m]"
proof -
  have "nat (int (Suc m)) = Suc m" by (rule nat_int)
  then show ?thesis unfolding range_int_def by simp
qed

lemma scatter_loop_eq:
  assumes "\<forall>k \<in> set nz. k < int (length sens)" and "length seed = length nz"
  shows "scatter_loop acc nz seed sens
           = Inr (replicate (length nz) 0, scatter acc nz seed sens)"
  using scatter_foreach [OF assms(1), of 0 seed acc] assms(2)
  by (simp add: scatter_loop_def)

lemma fwd_loop:
  assumes "m \<le> length (fwdSens b)" and "m \<le> length fwdSeed"
    and "\<forall>d<m. length (fwdSens b ! d) = length nz"
    and "\<forall>d<m. \<forall>k \<in> set nz. k < int (length (fwdSeed ! d))"
  shows "foreach (range_int (int m)) (evaluateGen_fwd nz fwdSeed) b
           = Inr (b\<lparr>fwdSens := map (\<lambda>fseed. gathered fseed nz) (take m fwdSeed)
                                  @ drop m (fwdSens b)\<rparr>)"
  using assms
proof (induction m)
  case 0
  then show ?case by (simp add: range_int_def)
next
  case (Suc m)
  let ?F = "map (\<lambda>fseed. gathered fseed nz) (take m fwdSeed) @ drop m (fwdSens b)"
  have IH: "foreach (range_int (int m)) (evaluateGen_fwd nz fwdSeed) b
              = Inr (b\<lparr>fwdSens := ?F\<rparr>)"
    using Suc.prems by (intro Suc.IH) simp_all
  have m: "m < length (fwdSens b)" "m < length fwdSeed" using Suc.prems by simp_all
  have Fm: "?F ! m = fwdSens b ! m" "m < length ?F"
    using m by (simp_all add: nth_append)
  have g: "gather_loop nz (fwdSeed ! m) (fwdSens b ! m) = Inr (gathered (fwdSeed ! m) nz)"
    using Suc.prems(3,4) by (intro gather_loop_eq) simp_all
  have upd: "?F[m := gathered (fwdSeed ! m) nz]
               = map (\<lambda>fseed. gathered fseed nz) (take (Suc m) fwdSeed)
                 @ drop (Suc m) (fwdSens b)"
    using m by (simp add: list_update_append take_Suc_conv_app_nth
        Cons_nth_drop_Suc [symmetric])
  have "evaluateGen_fwd nz fwdSeed (int m) (b\<lparr>fwdSens := ?F\<rparr>)
          = Inr (b\<lparr>fwdSens := ?F[m := gathered (fwdSeed ! m) nz]\<rparr>)"
    using m Fm g by (simp add: evaluateGen_fwd_def ebind_def vec_get_def vec_set_def)
  with IH upd show ?case
    by (simp only: range_int_Suc foreach_append) (simp add: ebind_def)
qed

lemma adj_loop:
  assumes "m \<le> length (adjSeed b)" and "m \<le> length (adjSens b)"
    and "\<forall>d<m. length (adjSeed b ! d) = length nz"
    and "\<forall>d<m. \<forall>k \<in> set nz. k < int (length (adjSens b ! d))"
  shows "foreach (range_int (int m)) (evaluateGen_adj nz) b
           = Inr (b\<lparr>adjSeed := replicate m (replicate (length nz) 0) @ drop m (adjSeed b),
                    adjSens := map (\<lambda>(aseed, asens). scatter (+) nz aseed asens)
                                 (zip (take m (adjSeed b)) (take m (adjSens b)))
                               @ drop m (adjSens b)\<rparr>)"
  using assms
proof (induction m)
  case 0
  then show ?case by (simp add: range_int_def)
next
  case (Suc m)
  let ?D = "replicate m (replicate (length nz) (0::'a)) @ drop m (adjSeed b)"
  let ?S = "map (\<lambda>(aseed, asens). scatter (+) nz aseed asens)
              (zip (take m (adjSeed b)) (take m (adjSens b))) @ drop m (adjSens b)"
  have IH: "foreach (range_int (int m)) (evaluateGen_adj nz) b
              = Inr (b\<lparr>adjSeed := ?D, adjSens := ?S\<rparr>)"
    using Suc.prems by (intro Suc.IH) simp_all
  have m: "m < length (adjSeed b)" "m < length (adjSens b)" using Suc.prems by simp_all
  have Dm: "?D ! m = adjSeed b ! m" "m < length ?D"
    using m by (simp_all add: nth_append)
  have Sm: "?S ! m = adjSens b ! m" "m < length ?S"
    using m by (simp_all add: nth_append)
  have sc: "scatter_loop (+) nz (adjSeed b ! m) (adjSens b ! m)
              = Inr (replicate (length nz) 0, scatter (+) nz (adjSeed b ! m) (adjSens b ! m))"
    using Suc.prems(3,4) by (intro scatter_loop_eq) simp_all
  have updD: "?D[m := replicate (length nz) 0]
                = replicate (Suc m) (replicate (length nz) 0) @ drop (Suc m) (adjSeed b)"
    using m by (simp add: list_update_append Cons_nth_drop_Suc [symmetric]
        replicate_app_Cons_same)
  have updS: "?S[m := scatter (+) nz (adjSeed b ! m) (adjSens b ! m)]
                = map (\<lambda>(aseed, asens). scatter (+) nz aseed asens)
                    (zip (take (Suc m) (adjSeed b)) (take (Suc m) (adjSens b)))
                  @ drop (Suc m) (adjSens b)"
    using m by (simp add: list_update_append take_Suc_conv_app_nth
        Cons_nth_drop_Suc [symmetric])
  have "evaluateGen_adj nz (int m) (b\<lparr>adjSeed := ?D, adjSens := ?S\<rparr>)
          = Inr (b\<lparr>adjSeed := ?D[m := replicate (length nz) 0],
                   adjSens := ?S[m := scatter (+) nz (adjSeed b ! m) (adjSens b ! m)]\<rparr>)"
    using m Dm Sm sc by (simp add: evaluateGen_adj_def ebind_def vec_get_def vec_set_def)
  with IH updD updS show ?case
    by (simp only: range_int_Suc foreach_append) (simp add: ebind_def)
qed

lemma zip_take_right: "zip xs (take (length xs) ys) = zip xs ys"
  by (induction xs ys rule: list_induct2') simp_all

lemma evaluateGen_eq:
  assumes "buffers_fit nz idata fwdSeed b"
  shows "evaluateGen nz idata fwdSeed b
           = Inr \<lparr>outputd = gathered idata nz,
                  fwdSens = map (\<lambda>fseed. gathered fseed nz) (take (length (fwdSens b)) fwdSeed),
                  adjSeed = map (\<lambda>_. replicate (length nz) 0) (adjSeed b),
                  adjSens = map (\<lambda>(aseed, asens). scatter (+) nz aseed asens)
                              (zip (adjSeed b) (adjSens b))
                            @ drop (length (adjSeed b)) (adjSens b)\<rparr>"
proof -
  let ?nfwd = "length (fwdSens b)" and ?nadj = "length (adjSeed b)"
  let ?b0 = "b\<lparr>outputd := gathered idata nz\<rparr>"
  let ?b1 = "?b0\<lparr>fwdSens := map (\<lambda>fseed. gathered fseed nz) (take ?nfwd fwdSeed)
                              @ drop ?nfwd (fwdSens ?b0)\<rparr>"
  from assms have fit:
    "nz_within nz idata" "length (outputd b) = length nz" "?nfwd \<le> length fwdSeed"
    "\<forall>v \<in> set (fwdSens b). length v = length nz"
    "\<forall>v \<in> set (take ?nfwd fwdSeed). nz_within nz v"
    "?nadj \<le> length (adjSens b)"
    "\<forall>v \<in> set (adjSeed b). length v = length nz"
    "\<forall>v \<in> set (take ?nadj (adjSens b)). nz_within nz v"
    by (simp_all add: buffers_fit_def)
  have v: "gather_loop nz idata (outputd b) = Inr (gathered idata nz)"
    using fit(1,2) by (intro gather_loop_eq) (simp_all add: nz_within_def)
  have f: "foreach (range_int (int ?nfwd)) (evaluateGen_fwd nz fwdSeed) ?b0 = Inr ?b1"
  proof (rule fwd_loop)
    show "\<forall>d<?nfwd. length (fwdSens ?b0 ! d) = length nz"
      using fit(4) by simp
    show "\<forall>d<?nfwd. \<forall>k \<in> set nz. k < int (length (fwdSeed ! d))"
    proof (intro allI impI)
      fix d assume "d < ?nfwd"
      with fit(3) have "fwdSeed ! d \<in> set (take ?nfwd fwdSeed)"
        by (metis in_set_conv_nth length_take min.absorb2 nth_take)
      with fit(5) show "\<forall>k \<in> set nz. k < int (length (fwdSeed ! d))"
        by (simp add: nz_within_def)
    qed
  qed (use fit(3) in simp_all)
  have a: "foreach (range_int (int ?nadj)) (evaluateGen_adj nz) ?b1
             = Inr (?b1\<lparr>adjSeed := replicate ?nadj (replicate (length nz) 0)
                                     @ drop ?nadj (adjSeed ?b1),
                        adjSens := map (\<lambda>(aseed, asens). scatter (+) nz aseed asens)
                                     (zip (take ?nadj (adjSeed ?b1)) (take ?nadj (adjSens ?b1)))
                                   @ drop ?nadj (adjSens ?b1)\<rparr>)"
  proof (rule adj_loop)
    show "\<forall>d<?nadj. length (adjSeed ?b1 ! d) = length nz"
      using fit(7) by simp
    show "\<forall>d<?nadj. \<forall>k \<in> set nz. k < int (length (adjSens ?b1 ! d))"
    proof (intro allI impI)
      fix d assume "d < ?nadj"
      with fit(6) have "adjSens b ! d \<in> set (take ?nadj (adjSens b))"
        by (metis in_set_conv_nth length_take min.absorb2 nth_take)
      with fit(8) show "\<forall>k \<in> set nz. k < int (length (adjSens ?b1 ! d))"
        by (simp add: nz_within_def)
    qed
  qed (use fit(6) in simp_all)
  have z: "zip (adjSeed b) (take ?nadj (adjSens b)) = zip (adjSeed b) (adjSens b)"
    by (rule zip_take_right)
  have r: "replicate ?nadj (replicate (length nz) (0::'a))
             = map (\<lambda>_. replicate (length nz) 0) (adjSeed b)"
    by (simp add: map_replicate_const)
  show ?thesis
    using v f a z r by (simp add: evaluateGen_def Let_def ebind_def)
qed


lemma nz_in_order_iff:
  "nz_in_order nz k = (\<forall>i < length nz. nz ! i = k + int i)"
proof (induction nz arbitrary: k)
  case Nil
  show ?case by simp
next
  case (Cons x xs)
  have "(\<forall>i < length (x # xs). (x # xs) ! i = k + int i)
          = (x = k \<and> (\<forall>i < length xs. xs ! i = (k + 1) + int i))"
    by (auto simp: nth_Cons split: nat.splits)
  with Cons.IH [of "k + 1"] show ?case by auto
qed

lemma gathered_identity:
  assumes "\<forall>i < length nz. nz ! i = int i" and "length x = length nz"
  shows "gathered x nz = x"
  using assms by (auto simp: gathered_def intro!: nth_equalityI)

subsection \<open>Flattening a gather of a gather over valid indices\<close>

lemma remap_nz_valid:
  assumes "\<forall>i \<in> set nz. 0 \<le> i \<and> i < int (length nz_this)"
  shows "remap_nz nz_this nz = Inr (map (\<lambda>i. nz_this ! nat i) nz)"
  using assms by (induction nz) (simp_all add: ebind_def vec_get_def)

lemma getGetNonzeros_flattens_valid:
  assumes "\<forall>i \<in> set nz. 0 \<le> i \<and> i < int (length nz_this)"
  shows "getGetNonzeros (GetNonzeros osp nz_this (Symbolic n s)) sp nz
           = Inr (GetNonzeros sp (map (\<lambda>i. nz_this ! nat i) nz) (Symbolic n s))"
  using remap_nz_valid [OF assms] by simp

lemma value_of_gather:
  assumes "value_of env y = Inr x" and "nz_within nz x" and "length nz = length (col sp)"
  shows "value_of env (GetNonzeros sp nz y) = Inr (gathered x nz)"
proof -
  let ?b = "\<lparr>outputd = replicate (length (col sp)) (0::'a), fwdSens = [], adjSeed = [],
             adjSens = []\<rparr>"
  have "buffers_fit nz x [] ?b"
    using assms(2,3) by (simp add: buffers_fit_def)
  from evaluateGen_eq [OF this] assms(1) show ?thesis by simp
qed

lemma flattened_value_valid:
  assumes nz: "\<forall>i \<in> set nz. 0 \<le> i \<and> i < int (length nz_this)"
    and inner: "nz_within nz_this (env n)" "length nz_this = length (col osp)"
    and outer: "length nz = length (col sp)"
  shows "value_of env (GetNonzeros sp (map (\<lambda>i. nz_this ! nat i) nz) (Symbolic n s))
           = value_of env (GetNonzeros sp nz (GetNonzeros osp nz_this (Symbolic n s)))"
proof -
  have leaf: "value_of env (Symbolic n s) = Inr (env n)" by simp
  have mid: "value_of env (GetNonzeros osp nz_this (Symbolic n s))
               = Inr (gathered (env n) nz_this)"
    using leaf inner by (rule value_of_gather)
  have w1: "nz_within nz (gathered (env n) nz_this)"
    using nz by (simp add: nz_within_def gathered_def)
  have w2: "nz_within (map (\<lambda>i. nz_this ! nat i) nz) (env n)"
    using nz inner(1) by (auto simp: nz_within_def)
  have "gathered (gathered (env n) nz_this) nz
          = gathered (env n) (map (\<lambda>i. nz_this ! nat i) nz)"
    using nz by (auto simp: gathered_def)
  then show ?thesis
    using value_of_gather [OF mid w1 outer] value_of_gather [OF leaf w2] outer
    by simp
qed

subsection \<open>The counting loop of evaluateMX\<close>

lemma count_loop_raises:
  assumes "\<exists>k \<in> set ks. k < 0" and "\<forall>k \<in> set ks. k + 1 < int (length c)"
  shows "foreach ks count_step c = Inl (CasadiException ''Not implemented'')"
  using assms
proof (induction ks arbitrary: c)
  case Nil
  then show ?case by simp
next
  case (Cons k ks)
  show ?case
  proof (cases "k < 0")
    case True
    then show ?thesis
      by (simp add: count_step_def casadi_assert_message_def ebind_def)
  next
    case False
    with Cons.prems(2) have step: "count_step k c = Inr (c[nat (k + 1) := c ! nat (k + 1) + 1])"
      by (simp add: count_step_def casadi_assert_message_def ebind_def vec_get_def vec_set_def)
    from False Cons.prems(1) have ex: "\<exists>k \<in> set ks. k < 0" by simp
    have "foreach ks count_step (c[nat (k + 1) := c ! nat (k + 1) + 1])
            = Inl (CasadiException ''Not implemented'')"
      using ex Cons.prems(2) by (intro Cons.IH) simp_all
    with step show ?thesis by simp
  qed
qed

lemma count_loop_passes:
  assumes "\<forall>k \<in> set ks. 0 \<le> k \<and> k + 1 < int (length c)"
  shows "\<exists>c'. foreach ks count_step c = Inr c' \<and> length c' = length c"
  using assms
proof (induction ks arbitrary: c)
  case Nil
  then show ?case by simp
next
  case (Cons k ks)
  then have step: "count_step k c = Inr (c[nat (k + 1) := c ! nat (k + 1) + 1])"
    by (simp add: count_step_def casadi_assert_message_def ebind_def vec_get_def vec_set_def)
  have "\<exists>c'. foreach ks count_step (c[nat (k + 1) := c ! nat (k + 1) + 1]) = Inr c'
          \<and> length c' = length (c[nat (k + 1) := c ! nat (k + 1) + 1])"
    using Cons.prems by (intro Cons.IH) simp_all
  with step show ?case by simp
qed

subsection \<open>The norms return on arguments of the right shape\<close>

lemma foreach_total:
  assumes "P s"
    and "\<And>i t. i \<in> set xs \<Longrightarrow> P t \<Longrightarrow> \<exists>t'. body i t = Inr t' \<and> P t'"
  shows "\<exists>s'. foreach xs body s = Inr s' \<and> P s'"
  using assms
proof (induction xs arbitrary: s)
  case Nil
  then show ?case by simp
next
  case (Cons x xs)
  from Cons.prems(2) [of x s] Cons.prems(1)
  obtain t where t: "body x s = Inr t" "P t" by auto
  have "\<exists>s'. foreach xs body t = Inr s' \<and> P s'"
    using t(2) Cons.prems(2) by (intro Cons.IH) auto
  with t(1) show ?case by simp
qed

lemma take_nth_in:
  assumes "0 \<le> d" and "d < n" and "n \<le> int (length vv)"
  shows "vv ! nat d \<in> set (take (nat n) vv)"
proof -
  have "nat d < length (take (nat n) vv)" using assms by simp
  then have "take (nat n) vv ! nat d \<in> set (take (nat n) vv)" by (rule nth_mem)
  moreover have "take (nat n) vv ! nat d = vv ! nat d" using assms by simp
  ultimately show ?thesis by simp
qed

lemma map_length_nth:
  "map length vv' = map length vv \<Longrightarrow> i < length vv \<Longrightarrow> length (vv' ! i) = length (vv ! i)"
  by (metis length_map nth_map)

lemma map_length_len: "map length vv' = map length vv \<Longrightarrow> length vv' = length vv"
  by (metis length_map)

lemma get2_ok:
  assumes "0 \<le> d" "d < int (length vv)" "0 \<le> k" "k < int (length (vv ! nat d))"
  shows "get2 vv d k = Inr (vv ! nat d ! nat k)"
  using assms by (simp add: get2_def ebind_def vec_get_def)

lemma set2_ok:
  assumes "0 \<le> d" "d < int (length vv)" "0 \<le> k" "k < int (length (vv ! nat d))"
  shows "set2 vv d k x = Inr (vv[nat d := (vv ! nat d)[nat k := x]])"
  using assms by (simp add: set2_def ebind_def vec_get_def vec_set_def)

lemma map_length_update2:
  "map length (vv[d := (vv ! d)[k := x]]) = map length vv"
proof (cases "d < length vv")
  case True
  then show ?thesis
    by (intro nth_equalityI) (simp_all add: nth_list_update)
next
  case False
  then show ?thesis by (simp add: list_update_beyond)
qed

lemma fit_adj:
  assumes "norm_fit dep_size inputd fwdSeed b nfwd nadj" and "same_shape b t"
    and "0 \<le> d" and "d < nadj"
  shows "d < int (length (adjSeed t))" and "0 < int (length (adjSeed t ! nat d))"
    and "d < int (length (adjSens t))" and "dep_size \<le> int (length (adjSens t ! nat d))"
proof -
  from assms(1) have n: "nadj \<le> int (length (adjSeed b))" "nadj \<le> int (length (adjSens b))"
    and e: "\<forall>v \<in> set (take (nat nadj) (adjSeed b)). v \<noteq> []"
           "\<forall>v \<in> set (take (nat nadj) (adjSens b)). dep_size \<le> int (length v)"
    by (simp_all add: norm_fit_def)
  from assms(2) have s: "adjSeed t = adjSeed b" "map length (adjSens t) = map length (adjSens b)"
    by (simp_all add: same_shape_def)
  show "d < int (length (adjSeed t))" using n(1) assms(4) s(1) by simp
  show "0 < int (length (adjSeed t ! nat d))"
    using take_nth_in [OF assms(3,4) n(1)] e(1) s(1) by auto
  show "d < int (length (adjSens t))"
    using n(2) assms(4) map_length_len [OF s(2)] by simp
  have "length (adjSens t ! nat d) = length (adjSens b ! nat d)"
    using s(2) n(2) assms(3,4) by (intro map_length_nth) simp_all
  then show "dep_size \<le> int (length (adjSens t ! nat d))"
    using take_nth_in [OF assms(3,4) n(2)] e(2) by auto
qed

lemma fit_fwd:
  assumes "norm_fit dep_size inputd fwdSeed b nfwd nadj" and "same_shape b t"
    and "0 \<le> d" and "d < nfwd"
  shows "d < int (length (fwdSens t))" and "0 < int (length (fwdSens t ! nat d))"
    and "d < int (length fwdSeed)" and "dep_size \<le> int (length (fwdSeed ! nat d))"
proof -
  from assms(1) have n: "nfwd \<le> int (length (fwdSens b))" "nfwd \<le> int (length fwdSeed)"
    and e: "\<forall>v \<in> set (take (nat nfwd) (fwdSens b)). v \<noteq> []"
           "\<forall>v \<in> set (take (nat nfwd) fwdSeed). dep_size \<le> int (length v)"
    by (simp_all add: norm_fit_def)
  from assms(2) have s: "map length (fwdSens t) = map length (fwdSens b)"
    by (simp add: same_shape_def)
  show "d < int (length (fwdSens t))"
    using n(1) assms(4) map_length_len [OF s] by simp
  have "length (fwdSens t ! nat d) = length (fwdSens b ! nat d)"
    using s n(1) assms(3,4) by (intro map_length_nth) simp_all
  then show "0 < int (length (fwdSens t ! nat d))"
    using take_nth_in [OF assms(3,4) n(1)] e(1) by auto
  show "d < int (length fwdSeed)" using n(2) assms(4) by simp
  show "dep_size \<le> int (length (fwdSeed ! nat d))"
    using take_nth_in [OF assms(3,4) n(2)] e(2) by auto
qed

lemma fit_base:
  assumes "norm_fit dep_size inputd fwdSeed b nfwd nadj" and "same_shape b t"
  shows "dep_size \<le> int (length inputd)" and "0 < int (length (outputd t))"
  using assms by (simp_all add: norm_fit_def same_shape_def)

lemma same_shape_adjSens:
  "same_shape b t \<Longrightarrow> same_shape b (t\<lparr>adjSens := (adjSens t)[d := (adjSens t ! d)[k := x]]\<rparr>)"
  by (simp add: same_shape_def map_length_update2)

lemma same_shape_fwdSens:
  "same_shape b t \<Longrightarrow> same_shape b (t\<lparr>fwdSens := (fwdSens t)[d := (fwdSens t ! d)[k := x]]\<rparr>)"
  by (simp add: same_shape_def map_length_update2)

lemma range_int_mem: "i \<in> set (range_int n) \<Longrightarrow> 0 \<le> i \<and> i < n"
  by (auto simp: range_int_def)

lemma same_shape_refl: "same_shape b b"
  by (simp add: same_shape_def)

lemma same_shape_outputd: "same_shape b t \<Longrightarrow> same_shape b (t\<lparr>outputd := (outputd t)[0 := x]\<rparr>)"
  by (simp add: same_shape_def)

lemma sumsq_loop_total:
  assumes "dep_size \<le> int (length inputd)"
  shows "\<exists>temp. foreach (range_int dep_size) (sumsq_step inputd) (Num 0) = Inr temp"
proof -
  have "\<exists>s'. foreach (range_int dep_size) (sumsq_step inputd) (Num 0) = Inr s' \<and> True"
    using assms
    by (intro foreach_total) (auto simp: sumsq_step_def ebind_def vec_get_def dest!: range_int_mem)
  then show ?thesis by simp
qed

lemma abs_loop_total:
  assumes "dep_size \<le> int (length inputd)"
  shows "\<exists>temp. foreach (range_int dep_size) (Norm1_abs_step inputd) (Num 0) = Inr temp"
proof -
  have "\<exists>s'. foreach (range_int dep_size) (Norm1_abs_step inputd) (Num 0) = Inr s' \<and> True"
    using assms
    by (intro foreach_total)
      (auto simp: Norm1_abs_step_def ebind_def vec_get_def dest!: range_int_mem)
  then show ?thesis by simp
qed

lemma Norm2_adj_step_total:
  assumes fit: "norm_fit dep_size inputd fwdSeed b nfwd nadj" and sh: "same_shape b t"
    and d: "0 \<le> d" "d < nadj" and k: "0 \<le> k" "k < dep_size"
  shows "\<exists>t'. Norm2_adj_step inputd d k t = Inr t' \<and> same_shape b t'"
proof -
  note a = fit_adj [OF fit sh d] and c = fit_base [OF fit sh]
  have k': "k < int (length (adjSens t ! nat d))" using a(4) k(2) by simp
  show ?thesis
    using a c d k k' sh
    by (simp add: Norm2_adj_step_def ebind_def vec_get_def get2_ok set2_ok same_shape_adjSens)
qed

lemma Norm2_adj_total:
  assumes fit: "norm_fit dep_size inputd fwdSeed b nfwd nadj" and sh: "same_shape b t"
    and d: "0 \<le> d" "d < nadj"
  shows "\<exists>t'. Norm2_adj dep_size inputd d t = Inr t' \<and> same_shape b t'"
proof -
  note a = fit_adj [OF fit sh d]
  have s: "get2 (adjSeed t) d 0 = Inr (adjSeed t ! nat d ! nat 0)"
    using a d by (intro get2_ok) simp_all
  show ?thesis
  proof (cases "feq (adjSeed t ! nat d ! nat 0) (Num 0)")
    case True
    with s sh show ?thesis by (simp add: Norm2_adj_def ebind_def)
  next
    case False
    have "\<exists>t'. foreach (range_int dep_size) (Norm2_adj_step inputd d) t = Inr t' \<and> same_shape b t'"
      using sh
    proof (rule foreach_total)
      fix i u assume "i \<in> set (range_int dep_size)" and u: "same_shape b u"
      then have "0 \<le> i" "i < dep_size" by (auto dest: range_int_mem)
      then show "\<exists>t'. Norm2_adj_step inputd d i u = Inr t' \<and> same_shape b t'"
        by (rule Norm2_adj_step_total [OF fit u d])
    qed
    with s False show ?thesis by (simp add: Norm2_adj_def ebind_def)
  qed
qed

lemma Norm2_fwd_step_total:
  assumes fit: "norm_fit dep_size inputd fwdSeed b nfwd nadj" and sh: "same_shape b t"
    and d: "0 \<le> d" "d < nfwd" and k: "0 \<le> k" "k < dep_size"
  shows "\<exists>t'. Norm2_fwd_step inputd fwdSeed d k t = Inr t' \<and> same_shape b t'"
proof -
  note a = fit_fwd [OF fit sh d] and c = fit_base [OF fit sh]
  have k': "k < int (length (fwdSeed ! nat d))" using a(4) k(2) by simp
  show ?thesis
    using a c d k k' sh
    by (simp add: Norm2_fwd_step_def ebind_def vec_get_def get2_ok set2_ok same_shape_fwdSens)
qed

lemma Norm2_fwd_total:
  assumes fit: "norm_fit dep_size inputd fwdSeed b nfwd nadj" and sh: "same_shape b t"
    and d: "0 \<le> d" "d < nfwd"
  shows "\<exists>t'. Norm2_fwd dep_size inputd fwdSeed d t = Inr t' \<and> same_shape b t'"
proof -
  note a = fit_fwd [OF fit sh d]
  let ?t0 = "t\<lparr>fwdSens := (fwdSens t)[nat d := (fwdSens t ! nat d)[nat 0 := Num 0]]\<rparr>"
  have z: "set2 (fwdSens t) d 0 (Num 0)
             = Inr ((fwdSens t)[nat d := (fwdSens t ! nat d)[nat 0 := Num 0]])"
    using a d by (intro set2_ok) simp_all
  have sh0: "same_shape b ?t0" using sh by (rule same_shape_fwdSens)
  have "\<exists>t'. foreach (range_int dep_size) (Norm2_fwd_step inputd fwdSeed d) ?t0 = Inr t'
          \<and> same_shape b t'"
    using sh0
  proof (rule foreach_total)
    fix i u assume "i \<in> set (range_int dep_size)" and u: "same_shape b u"
    then have "0 \<le> i" "i < dep_size" by (auto dest: range_int_mem)
    then show "\<exists>t'. Norm2_fwd_step inputd fwdSeed d i u = Inr t' \<and> same_shape b t'"
      by (rule Norm2_fwd_step_total [OF fit u d])
  qed
  with z show ?thesis by (simp add: Norm2_fwd_def ebind_def)
qed

lemma Norm2_directions_total:
  assumes fit: "norm_fit dep_size inputd fwdSeed b nfwd nadj" and sh: "same_shape b t"
  shows "\<exists>t'. ebind (foreach (range_int nfwd) (Norm2_fwd dep_size inputd fwdSeed) t)
                (\<lambda>b1. foreach (range_int nadj) (Norm2_adj dep_size inputd) b1) = Inr t'"
proof -
  have "\<exists>b1. foreach (range_int nfwd) (Norm2_fwd dep_size inputd fwdSeed) t = Inr b1
          \<and> same_shape b b1"
    using sh
  proof (rule foreach_total)
    fix i u assume "i \<in> set (range_int nfwd)" and u: "same_shape b u"
    then have "0 \<le> i" "i < nfwd" by (auto dest: range_int_mem)
    then show "\<exists>t'. Norm2_fwd dep_size inputd fwdSeed i u = Inr t' \<and> same_shape b t'"
      by (rule Norm2_fwd_total [OF fit u])
  qed
  then obtain b1 where
    f: "foreach (range_int nfwd) (Norm2_fwd dep_size inputd fwdSeed) t = Inr b1"
    and sh1: "same_shape b b1" by blast
  have "\<exists>t'. foreach (range_int nadj) (Norm2_adj dep_size inputd) b1 = Inr t' \<and> same_shape b t'"
    using sh1
  proof (rule foreach_total)
    fix i u assume "i \<in> set (range_int nadj)" and u: "same_shape b u"
    then have "0 \<le> i" "i < nadj" by (auto dest: range_int_mem)
    then show "\<exists>t'. Norm2_adj dep_size inputd i u = Inr t' \<and> same_shape b t'"
      by (rule Norm2_adj_total [OF fit u])
  qed
  with f show ?thesis by (auto simp: ebind_def)
qed

lemma Norm22_adj_step_total:
  assumes fit: "norm_fit dep_size inputd fwdSeed b nfwd nadj" and sh: "same_shape b t"
    and d: "0 \<le> d" "d < nadj" and k: "0 \<le> k" "k < dep_size"
  shows "\<exists>t'. Norm22_adj_step inputd d k t = Inr t' \<and> same_shape b t'"
proof -
  note a = fit_adj [OF fit sh d] and c = fit_base [OF fit sh]
  have k': "k < int (length (adjSens t ! nat d))" using a(4) k(2) by simp
  show ?thesis
    using a c d k k' sh
    by (simp add: Norm22_adj_step_def ebind_def vec_get_def get2_ok set2_ok same_shape_adjSens)
qed

lemma Norm22_adj_total:
  assumes fit: "norm_fit dep_size inputd fwdSeed b nfwd nadj" and sh: "same_shape b t"
    and d: "0 \<le> d" "d < nadj"
  shows "\<exists>t'. Norm22_adj dep_size inputd d t = Inr t' \<and> same_shape b t'"
proof -
  note a = fit_adj [OF fit sh d]
  have s: "get2 (adjSeed t) d 0 = Inr (adjSeed t ! nat d ! nat 0)"
    using a d by (intro get2_ok) simp_all
  show ?thesis
  proof (cases "feq (adjSeed t ! nat d ! nat 0) (Num 0)")
    case True
    with s sh show ?thesis by (simp add: Norm22_adj_def ebind_def)
  next
    case False
    have "\<exists>t'. foreach (range_int dep_size) (Norm22_adj_step inputd d) t = Inr t' \<and> same_shape b t'"
      using sh
    proof (rule foreach_total)
      fix i u assume "i \<in> set (range_int dep_size)" and u: "same_shape b u"
      then have "0 \<le> i" "i < dep_size" by (auto dest: range_int_mem)
      then show "\<exists>t'. Norm22_adj_step inputd d i u = Inr t' \<and> same_shape b t'"
        by (rule Norm22_adj_step_total [OF fit u d])
    qed
    with s False show ?thesis by (simp add: Norm22_adj_def ebind_def)
  qed
qed

lemma Norm22_fwd_step_total:
  assumes fit: "norm_fit dep_size inputd fwdSeed b nfwd nadj" and sh: "same_shape b t"
    and d: "0 \<le> d" "d < nfwd" and k: "0 \<le> k" "k < dep_size"
  shows "\<exists>t'. Norm22_fwd_step inputd fwdSeed d k t = Inr t' \<and> same_shape b t'"
proof -
  note a = fit_fwd [OF fit sh d] and c = fit_base [OF fit sh]
  have k': "k < int (length (fwdSeed ! nat d))" using a(4) k(2) by simp
  show ?thesis
    using a c d k k' sh
    by (simp add: Norm22_fwd_step_def ebind_def vec_get_def get2_ok set2_ok same_shape_fwdSens)
qed

lemma Norm22_fwd_total:
  assumes fit: "norm_fit dep_size inputd fwdSeed b nfwd nadj" and sh: "same_shape b t"
    and d: "0 \<le> d" "d < nfwd"
  shows "\<exists>t'. Norm22_fwd dep_size inputd fwdSeed d t = Inr t' \<and> same_shape b t'"
proof -
  note a = fit_fwd [OF fit sh d]
  let ?t0 = "t\<lparr>fwdSens := (fwdSens t)[nat d := (fwdSens t ! nat d)[nat 0 := Num 0]]\<rparr>"
  have z: "set2 (fwdSens t) d 0 (Num 0)
             = Inr ((fwdSens t)[nat d := (fwdSens t ! nat d)[nat 0 := Num 0]])"
    using a d by (intro set2_ok) simp_all
  have sh0: "same_shape b ?t0" using sh by (rule same_shape_fwdSens)
  have "\<exists>t'. foreach (range_int dep_size) (Norm22_fwd_step inputd fwdSeed d) ?t0 = Inr t'
          \<and> same_shape b t'"
    using sh0
  proof (rule foreach_total)
    fix i u assume "i \<in> set (range_int dep_size)" and u: "same_shape b u"
    then have "0 \<le> i" "i < dep_size" by (auto dest: range_int_mem)
    then show "\<exists>t'. Norm22_fwd_step inputd fwdSeed d i u = Inr t' \<and> same_shape b t'"
      by (rule Norm22_fwd_step_total [OF fit u d])
  qed
  with z show ?thesis by (simp add: Norm22_fwd_def ebind_def)
qed

lemma Norm22_directions_total:
  assumes fit: "norm_fit dep_size inputd fwdSeed b nfwd nadj" and sh: "same_shape b t"
  shows "\<exists>t'. ebind (foreach (range_int nfwd) (Norm22_fwd dep_size inputd fwdSeed) t)
                (\<lambda>b1. foreach (range_int nadj) (Norm22_adj dep_size inputd) b1) = Inr t'"
proof -
  have "\<exists>b1. foreach (range_int nfwd) (Norm22_fwd dep_size inputd fwdSeed) t = Inr b1
          \<and> same_shape b b1"
    using sh
  proof (rule foreach_total)
    fix i u assume "i \<in> set (range_int nfwd)" and u: "same_shape b u"
    then have "0 \<le> i" "i < nfwd" by (auto dest: range_int_mem)
    then show "\<exists>t'. Norm22_fwd dep_size inputd fwdSeed i u = Inr t' \<and> same_shape b t'"
      by (rule Norm22_fwd_total [OF fit u])
  qed
  then obtain b1 where
    f: "foreach (range_int nfwd) (Norm22_fwd dep_size inputd fwdSeed) t = Inr b1"
    and sh1: "same_shape b b1" by blast
  have "\<exists>t'. foreach (range_int nadj) (Norm22_adj dep_size inputd) b1 = Inr t' \<and> same_shape b t'"
    using sh1
  proof (rule foreach_total)
    fix i u assume "i \<in> set (range_int nadj)" and u: "same_shape b u"
    then have "0 \<le> i" "i < nadj" by (auto dest: range_int_mem)
    then show "\<exists>t'. Norm22_adj dep_size inputd i u = Inr t' \<and> same_shape b t'"
      by (rule Norm22_adj_total [OF fit u])
  qed
  with f show ?thesis by (auto simp: ebind_def)
qed

lemma Norm1_adj_step_total:
  assumes fit: "norm_fit dep_size inputd fwdSeed b nfwd nadj" and sh: "same_shape b t"
    and d: "0 \<le> d" "d < nadj" and k: "0 \<le> k" "k < dep_size"
  shows "\<exists>t'. Norm1_adj_step inputd d k t = Inr t' \<and> same_shape b t'"
proof -
  note a = fit_adj [OF fit sh d] and c = fit_base [OF fit sh]
  have k': "k < int (length (adjSens t ! nat d))" using a(4) k(2) by simp
  show ?thesis
    using a c d k k' sh
    by (simp add: Norm1_adj_step_def ebind_def vec_get_def get2_ok set2_ok same_shape_adjSens)
qed

lemma Norm1_adj_total:
  assumes fit: "norm_fit dep_size inputd fwdSeed b nfwd nadj" and sh: "same_shape b t"
    and d: "0 \<le> d" "d < nadj"
  shows "\<exists>t'. Norm1_adj dep_size inputd d t = Inr t' \<and> same_shape b t'"
proof -
  note a = fit_adj [OF fit sh d]
  have s: "get2 (adjSeed t) d 0 = Inr (adjSeed t ! nat d ! nat 0)"
    using a d by (intro get2_ok) simp_all
  show ?thesis
  proof (cases "feq (adjSeed t ! nat d ! nat 0) (Num 0)")
    case True
    with s sh show ?thesis by (simp add: Norm1_adj_def ebind_def)
  next
    case False
    have "\<exists>t'. foreach (range_int dep_size) (Norm1_adj_step inputd d) t = Inr t' \<and> same_shape b t'"
      using sh
    proof (rule foreach_total)
      fix i u assume "i \<in> set (range_int dep_size)" and u: "same_shape b u"
      then have "0 \<le> i" "i < dep_size" by (auto dest: range_int_mem)
      then show "\<exists>t'. Norm1_adj_step inputd d i u = Inr t' \<and> same_shape b t'"
        by (rule Norm1_adj_step_total [OF fit u d])
    qed
    with s False show ?thesis by (simp add: Norm1_adj_def ebind_def)
  qed
qed

lemma Norm1_fwd_step_total:
  assumes fit: "norm_fit dep_size inputd fwdSeed b nfwd nadj" and sh: "same_shape b t"
    and d: "0 \<le> d" "d < nfwd" and k: "0 \<le> k" "k < dep_size"
  shows "\<exists>t'. Norm1_fwd_step inputd fwdSeed d k t = Inr t' \<and> same_shape b t'"
proof -
  note a = fit_fwd [OF fit sh d] and c = fit_base [OF fit sh]
  have k': "k < int (length (fwdSeed ! nat d))" using a(4) k(2) by simp
  show ?thesis
    using a c d k k' sh
    by (simp add: Norm1_fwd_step_def ebind_def vec_get_def get2_ok set2_ok same_shape_fwdSens)
qed

lemma Norm1_fwd_total:
  assumes fit: "norm_fit dep_size inputd fwdSeed b nfwd nadj" and sh: "same_shape b t"
    and d: "0 \<le> d" "d < nfwd"
  shows "\<exists>t'. Norm1_fwd dep_size inputd fwdSeed d t = Inr t' \<and> same_shape b t'"
proof -
  note a = fit_fwd [OF fit sh d]
  let ?t0 = "t\<lparr>fwdSens := (fwdSens t)[nat d := (fwdSens t ! nat d)[nat 0 := Num 0]]\<rparr>"
  have z: "set2 (fwdSens t) d 0 (Num 0)
             = Inr ((fwdSens t)[nat d := (fwdSens t ! nat d)[nat 0 := Num 0]])"
    using a d by (intro set2_ok) simp_all
  have sh0: "same_shape b ?t0" using sh by (rule same_shape_fwdSens)
  have "\<exists>t'. foreach (range_int dep_size) (Norm1_fwd_step inputd fwdSeed d) ?t0 = Inr t'
          \<and> same_shape b t'"
    using sh0
  proof (rule foreach_total)
    fix i u assume "i \<in> set (range_int dep_size)" and u: "same_shape b u"
    then have "0 \<le> i" "i < dep_size" by (auto dest: range_int_mem)
    then show "\<exists>t'. Norm1_fwd_step inputd fwdSeed d i u = Inr t' \<and> same_shape b t'"
      by (rule Norm1_fwd_step_total [OF fit u d])
  qed
  with z show ?thesis by (simp add: Norm1_fwd_def ebind_def)
qed

lemma Norm1_directions_total:
  assumes fit: "norm_fit dep_size inputd fwdSeed b nfwd nadj" and sh: "same_shape b t"
  shows "\<exists>t'. ebind (foreach (range_int nfwd) (Norm1_fwd dep_size inputd fwdSeed) t)
                (\<lambda>b1. foreach (range_int nadj) (Norm1_adj dep_size inputd) b1) = Inr t'"
proof -
  have "\<exists>b1. foreach (range_int nfwd) (Norm1_fwd dep_size inputd fwdSeed) t = Inr b1
          \<and> same_shape b b1"
    using sh
  proof (rule foreach_total)
    fix i u assume "i \<in> set (range_int nfwd)" and u: "same_shape b u"
    then have "0 \<le> i" "i < nfwd" by (auto dest: range_int_mem)
    then show "\<exists>t'. Norm1_fwd dep_size inputd fwdSeed i u = Inr t' \<and> same_shape b t'"
      by (rule Norm1_fwd_total [OF fit u])
  qed
  then obtain b1 where
    f: "foreach (range_int nfwd) (Norm1_fwd dep_size inputd fwdSeed) t = Inr b1"
    and sh1: "same_shape b b1" by blast
  have "\<exists>t'. foreach (range_int nadj) (Norm1_adj dep_size inputd) b1 = Inr t' \<and> same_shape b t'"
    using sh1
  proof (rule foreach_total)
    fix i u assume "i \<in> set (range_int nadj)" and u: "same_shape b u"
    then have "0 \<le> i" "i < nadj" by (auto dest: range_int_mem)
    then show "\<exists>t'. Norm1_adj dep_size inputd i u = Inr t' \<and> same_shape b t'"
      by (rule Norm1_adj_total [OF fit u])
  qed
  with f show ?thesis by (auto simp: ebind_def)
qed

lemma Norm2_evaluate_total:
  assumes fit: "norm_fit dep_size inputd fwdSeed b nfwd nadj"
  shows "\<exists>b'. Norm2_evaluate dep_size inputd fwdSeed b nfwd nadj = Inr b'"
proof -
  note c = fit_base [OF fit same_shape_refl]
  from sumsq_loop_total [OF c(1)] obtain temp where
    t: "foreach (range_int dep_size) (sumsq_step inputd) (Num 0) = Inr temp" ..
  have o: "vec_set (outputd b) 0 (fsqrt temp) = Inr ((outputd b)[0 := fsqrt temp])"
    using c(2) by (simp add: vec_set_def)
  have "same_shape b (b\<lparr>outputd := (outputd b)[0 := fsqrt temp]\<rparr>)"
    using same_shape_refl by (rule same_shape_outputd)
  from Norm2_directions_total [OF fit this] t o show ?thesis
    by (simp add: Norm2_evaluate_def ebind_def)
qed

lemma Norm22_evaluate_total:
  assumes fit: "norm_fit dep_size inputd fwdSeed b nfwd nadj"
  shows "\<exists>b'. Norm22_evaluate dep_size inputd fwdSeed b nfwd nadj = Inr b'"
proof -
  note c = fit_base [OF fit same_shape_refl]
  from sumsq_loop_total [OF c(1)] obtain temp where
    t: "foreach (range_int dep_size) (sumsq_step inputd) (Num 0) = Inr temp" ..
  have o: "vec_set (outputd b) 0 temp = Inr ((outputd b)[0 := temp])"
    using c(2) by (simp add: vec_set_def)
  have "same_shape b (b\<lparr>outputd := (outputd b)[0 := temp]\<rparr>)"
    using same_shape_refl by (rule same_shape_outputd)
  from Norm22_directions_total [OF fit this] t o show ?thesis
    by (simp add: Norm22_evaluate_def ebind_def)
qed

lemma Norm1_evaluate_total:
  assumes fit: "norm_fit dep_size inputd fwdSeed b nfwd nadj"
  shows "\<exists>b'. Norm1_evaluate dep_size inputd fwdSeed b nfwd nadj = Inr b'"
proof (cases "nfwd = 0 \<and> nadj = 0")
  case True
  note c = fit_base [OF fit same_shape_refl]
  from abs_loop_total [OF c(1)] obtain temp where
    t: "foreach (range_int dep_size) (Norm1_abs_step inputd) (Num 0) = Inr temp" ..
  with True c(2) show ?thesis
    by (simp add: Norm1_evaluate_def ebind_def vec_set_def)
next
  case False
  then have "Norm1_evaluate dep_size inputd fwdSeed b nfwd nadj
               = ebind (foreach (range_int nfwd) (Norm1_fwd dep_size inputd fwdSeed) b)
                   (\<lambda>b1. foreach (range_int nadj) (Norm1_adj dep_size inputd) b1)"
    unfolding Norm1_evaluate_def by (rule if_not_P)
  with Norm1_directions_total [OF fit same_shape_refl] show ?thesis
    by simp
qed

subsection \<open>The infinity norm\<close>

lemma NormInf_loop_PInf:
  "\<forall>k \<in> set ks. 0 \<le> k \<and> k < int (length inputd) \<Longrightarrow>
   foreach ks (NormInf_step inputd) PInf = Inr PInf"
proof (induction ks)
  case Nil
  show ?case by simp
next
  case (Cons k ks)
  have "fgt (fabs (inputd ! nat k)) PInf = False"
    by (cases "inputd ! nat k") simp_all
  with Cons show ?case
    by (simp add: NormInf_step_def ebind_def vec_get_def)
qed

lemma NormInf_value_always_infinite:
  assumes "dep_size = int (length inputd)" and "outputd b \<noteq> []"
  shows "NormInf_evaluate dep_size inputd fwdSeed b nfwd 0
           = Inr (b\<lparr>outputd := (outputd b)[0 := PInf]\<rparr>)"
proof -
  have "foreach (range_int dep_size) (NormInf_step inputd) PInf = Inr PInf"
    using assms(1) by (intro NormInf_loop_PInf) (auto simp: range_int_def)
  with assms(2) show ?thesis
    by (simp add: NormInf_evaluate_def ebind_def vec_set_def)
qed

text \<open>
  C1. The infinity norm of \<open>x\<close> is the largest \<open>|x_k|\<close>. The loop of
  \<^verbatim>\<open>NormInf::evaluate\<close> starts its running maximum at plus infinity and replaces it
  only by a larger value, so the value written is plus infinity for every input: for
  the one-element vector \<open>[1]\<close> the node returns infinity, not 1.
\<close>

theorem C1_NormInf_of_one_is_infinite:
  "NormInf_evaluate 1 [Num 1] []
     \<lparr>outputd = [Num 0], fwdSens = [], adjSeed = [], adjSens = []\<rparr> 0 0
   = Inr \<lparr>outputd = [PInf], fwdSens = [], adjSeed = [], adjSens = []\<rparr>"
  by (simp add: NormInf_evaluate_def NormInf_step_def ebind_def vec_get_def vec_set_def
      range_int_def)

text \<open>
  C7. With the dependency data and the output buffer in place, \<^verbatim>\<open>NormInf::evaluate\<close>
  raises its exception exactly when the number of adjoint directions is greater than
  zero, and nothing else fails; with no adjoint direction it returns, whatever the
  number of forward directions. The test in the code is \<^verbatim>\<open>nadj!=0\<close> on an \<^verbatim>\<open>int\<close>,
  which for a count is \<open>0 < nadj\<close>.
\<close>

theorem C7_NormInf_raises_iff_adjoint:
  assumes "dep_size = int (length inputd)" and "outputd b \<noteq> []"
  shows "(0 \<le> nadj \<longrightarrow>
            ((NormInf_evaluate dep_size inputd fwdSeed b nfwd nadj
                = Inl (CasadiException ''NormInf::evaluate not implemented'')) = (0 < nadj))
          \<and> ((\<exists>e. NormInf_evaluate dep_size inputd fwdSeed b nfwd nadj = Inl e) = (0 < nadj)))
       \<and> ((NormInf_evaluate dep_size inputd fwdSeed b nfwd nadj
              = Inl (CasadiException ''NormInf::evaluate not implemented'')) = (nadj \<noteq> 0))
       \<and> (nadj = 0 \<longrightarrow>
            (\<exists>b'. NormInf_evaluate dep_size inputd fwdSeed b nfwd nadj = Inr b'))"
proof -
  have loop: "foreach (range_int dep_size) (NormInf_step inputd) PInf = Inr PInf"
    using assms(1) by (intro NormInf_loop_PInf) (auto simp: range_int_def)
  show ?thesis
    using loop assms(2) by (auto simp: NormInf_evaluate_def ebind_def vec_set_def)
qed

theorem C7_NormInf_raises_iff_adjoint_witness:
  "(NormInf_evaluate 2 [Num 3, Num (-4)] []
      \<lparr>outputd = [Num 0], fwdSens = [], adjSeed = [[Num 1]], adjSens = [[Num 0, Num 0]]\<rparr> 0 1
    = Inl (CasadiException ''NormInf::evaluate not implemented''))
   \<and> (\<exists>b'. NormInf_evaluate 2 [Num 3, Num (-4)] []
      \<lparr>outputd = [Num 0], fwdSens = [], adjSeed = [], adjSens = []\<rparr> 3 0 = Inr b')"
proof -
  have h: "(2::int) = int (length [Num 3, Num (-4)])" by simp
  have o1: "outputd \<lparr>outputd = [Num 0], fwdSens = [], adjSeed = [[Num 1]],
                     adjSens = [[Num 0, Num 0]]\<rparr> \<noteq> []" by simp
  have o2: "outputd \<lparr>outputd = [Num 0], fwdSens = [], adjSeed = ([] :: double list list),
                     adjSens = []\<rparr> \<noteq> []" by simp
  show ?thesis
    using C7_NormInf_raises_iff_adjoint [OF h o1, of 1 "[]" 0]
      C7_NormInf_raises_iff_adjoint [OF h o2, of 0 "[]" 3]
    by simp
qed

text \<open>
  C5. One evaluation of the 1-norm on \<open>x = [-2, 0, 3]\<close> with no forward direction, one
  adjoint direction and the seed 2 accumulates \<open>[-2, NaN, 2]\<close> into a zero sensitivity
  buffer, but it does not produce the value: \<^verbatim>\<open>Norm1::evaluate\<close> computes the sum of
  absolute values only when there is no direction at all, so the output keeps what it
  held before the call (here 0, not 5).
\<close>

theorem C5_Norm1_adjoint_leaves_value_unwritten:
  "Norm1_evaluate 3 [Num (-2), Num 0, Num 3] []
     \<lparr>outputd = [Num 0], fwdSens = [], adjSeed = [[Num 2]],
      adjSens = [[Num 0, Num 0, Num 0]]\<rparr> 0 1
   = Inr \<lparr>outputd = [Num 0], fwdSens = [], adjSeed = [[Num 2]],
          adjSens = [[Num (-2), NaN, Num 2]]\<rparr>"
  by (simp add: Norm1_evaluate_def Norm1_adj_def Norm1_adj_step_def get2_def set2_def
      ebind_def vec_get_def vec_set_def range_int_def flt_def
      fsub_def upt_conv_Cons)

lemma Norm1_value_without_directions:
  "Norm1_evaluate 3 [Num (-2), Num 0, Num 3] []
     \<lparr>outputd = [Num 0], fwdSens = [], adjSeed = [], adjSens = []\<rparr> 0 0
   = Inr \<lparr>outputd = [Num 5], fwdSens = [], adjSeed = [], adjSens = []\<rparr>"
  by (simp add: Norm1_evaluate_def Norm1_abs_step_def
      ebind_def vec_get_def vec_set_def range_int_def upt_conv_Cons)


text \<open>
  C9. When the adjoint seed of direction \<open>j\<close> compares equal to zero, every
  evaluation of the 1-norm, the 2-norm or the squared 2-norm leaves the sensitivity
  buffer of that direction as it was, whatever the other directions do; and on
  arguments of the right shape each of these evaluations returns.
\<close>

theorem C9_zero_adjoint_seed_leaves_sensitivity:
  assumes "get2 (adjSeed b) (int j) 0 = Inr s" and "feq s (Num 0)"
  shows "(\<forall>b'. Norm1_evaluate dep_size inputd fwdSeed b nfwd nadj = Inr b'
                \<longrightarrow> adjSens b' ! j = adjSens b ! j)
       \<and> (\<forall>b'. Norm2_evaluate dep_size inputd fwdSeed b nfwd nadj = Inr b'
                \<longrightarrow> adjSens b' ! j = adjSens b ! j)
       \<and> (\<forall>b'. Norm22_evaluate dep_size inputd fwdSeed b nfwd nadj = Inr b'
                \<longrightarrow> adjSens b' ! j = adjSens b ! j)
       \<and> (norm_fit dep_size inputd fwdSeed b nfwd nadj \<longrightarrow>
            (\<exists>b'. Norm1_evaluate dep_size inputd fwdSeed b nfwd nadj = Inr b')
            \<and> (\<exists>b'. Norm2_evaluate dep_size inputd fwdSeed b nfwd nadj = Inr b')
            \<and> (\<exists>b'. Norm22_evaluate dep_size inputd fwdSeed b nfwd nadj = Inr b'))"
  using Norm1_evaluate_frame [OF _ assms] Norm2_evaluate_frame [OF _ assms]
    Norm22_evaluate_frame [OF _ assms]
    Norm1_evaluate_total Norm2_evaluate_total Norm22_evaluate_total
  by (simp add: adj_frame_def)

theorem C9_zero_adjoint_seed_leaves_sensitivity_witness:
  "(\<exists>b1. Norm1_evaluate 2 [Num 3, Num 4] []
            \<lparr>outputd = [Num 0], fwdSens = [], adjSeed = [[Num 0], [Num 1]],
             adjSens = [[Num 7, Num 8], [Num 0, Num 0]]\<rparr> 0 2 = Inr b1
        \<and> adjSens b1 ! 0 = [Num 7, Num 8])
 \<and> (\<exists>b2. Norm2_evaluate 2 [Num 3, Num 4] []
            \<lparr>outputd = [Num 0], fwdSens = [], adjSeed = [[Num 0], [Num 1]],
             adjSens = [[Num 7, Num 8], [Num 0, Num 0]]\<rparr> 0 2 = Inr b2
        \<and> adjSens b2 ! 0 = [Num 7, Num 8])
 \<and> (\<exists>b22. Norm22_evaluate 2 [Num 3, Num 4] []
            \<lparr>outputd = [Num 0], fwdSens = [], adjSeed = [[Num 0], [Num 1]],
             adjSens = [[Num 7, Num 8], [Num 0, Num 0]]\<rparr> 0 2 = Inr b22
        \<and> adjSens b22 ! 0 = [Num 7, Num 8])"
proof -
  let ?b = "\<lparr>outputd = [Num 0], fwdSens = [], adjSeed = [[Num 0], [Num 1]],
             adjSens = [[Num 7, Num 8], [Num 0, Num 0]]\<rparr>"
  have seed: "get2 (adjSeed ?b) (int 0) 0 = Inr (Num 0)" "feq (Num 0) (Num 0)"
    by (simp_all add: get2_def ebind_def vec_get_def)
  have fit: "norm_fit 2 [Num 3, Num 4] [] ?b 0 2"
    by (simp add: norm_fit_def)
  show ?thesis
    using C9_zero_adjoint_seed_leaves_sensitivity [OF seed, of 2 "[Num 3, Num 4]" "[]" 0 2] fit
    by auto
qed

text \<open>
  C2. When the buffers fit the node, numeric evaluation of the gather returns; the
  output holds, position by position in the order of \<open>nz\<close>, the dependency's entry
  at \<open>nz[i]\<close> or 0 where \<open>nz[i]\<close> is negative, and the forward sensitivity of each
  direction is the same gather of that direction's forward seed.
\<close>

theorem C2_gather_value_and_forward:
  assumes "buffers_fit nz idata fwdSeed b"
  shows "\<exists>b'. evaluateGen nz idata fwdSeed b = Inr b'
           \<and> outputd b' = map (\<lambda>k. if 0 \<le> k then idata ! nat k else 0) nz
           \<and> fwdSens b'
               = map (\<lambda>fseed. map (\<lambda>k. if 0 \<le> k then fseed ! nat k else 0) nz)
                   (take (length (fwdSens b)) fwdSeed)"
  using evaluateGen_eq [OF assms] by (simp add: gathered_def)

theorem C2_gather_value_and_forward_witness:
  "buffers_fit [1, -1, 0] [Num 10, Num 20] [[Num 1, Num 2], [Num 3, Num 4]]
     \<lparr>outputd = [Num 8, Num 8, Num 8], fwdSens = [[Num 8, Num 8, Num 8], [Num 8, Num 8, Num 8]],
      adjSeed = [], adjSens = []\<rparr>
   \<and> (\<exists>b'. evaluateGen [1, -1, 0] [Num 10, Num 20] [[Num 1, Num 2], [Num 3, Num 4]]
          \<lparr>outputd = [Num 8, Num 8, Num 8],
           fwdSens = [[Num 8, Num 8, Num 8], [Num 8, Num 8, Num 8]],
           adjSeed = [], adjSens = []\<rparr> = Inr b'
        \<and> outputd b' = [Num 20, Num 0, Num 10]
        \<and> fwdSens b' = [[Num 2, Num 0, Num 1], [Num 4, Num 0, Num 3]])"
proof -
  let ?b = "\<lparr>outputd = [Num 8, Num 8, Num 8],
             fwdSens = [[Num 8, Num 8, Num 8], [Num 8, Num 8, Num 8]],
             adjSeed = [], adjSens = []\<rparr>"
  have fit: "buffers_fit [1, -1, 0] [Num 10, Num 20] [[Num 1, Num 2], [Num 3, Num 4]] ?b"
    by (simp add: buffers_fit_def nz_within_def)
  show ?thesis
    using fit C2_gather_value_and_forward [OF fit] by (simp add: zero_double_def)
qed

text \<open>
  C3. When the buffers fit the node, numeric evaluation of the gather returns and,
  for every adjoint direction, has cleared the whole seed buffer of the output and
  has added to each entry \<open>j\<close> of the dependency's sensitivity, in the order of the
  positions, the seeds of the positions \<open>i\<close> with \<open>nz[i] = j\<close>; seeds at negative
  indices reach no entry. Sensitivity buffers beyond the directions are untouched.
  The witness is the scenario \<open>nz = [1,-1,0]\<close>, \<open>x = [10,20]\<close>, seed \<open>[5,7,9]\<close>.
\<close>

theorem C3_gather_adjoint:
  assumes "buffers_fit nz idata fwdSeed b"
  shows "\<exists>b'. evaluateGen nz idata fwdSeed b = Inr b'
           \<and> adjSeed b' = map (\<lambda>_. replicate (length nz) 0) (adjSeed b)
           \<and> length (adjSens b') = length (adjSens b)
           \<and> (\<forall>d < length (adjSeed b).
                 length (adjSens b' ! d) = length (adjSens b ! d)
                 \<and> (\<forall>j < length (adjSens b ! d).
                       adjSens b' ! d ! j
                         = foldl (+) (adjSens b ! d ! j)
                             (map snd (filter (\<lambda>(k, s). k = int j)
                                         (zip nz (adjSeed b ! d))))))
           \<and> (\<forall>d < length (adjSens b). length (adjSeed b) \<le> d
                 \<longrightarrow> adjSens b' ! d = adjSens b ! d)"
proof -
  let ?nadj = "length (adjSeed b)"
  let ?S = "map (\<lambda>(aseed, asens). scatter (+) nz aseed asens) (zip (adjSeed b) (adjSens b))"
  let ?A = "?S @ drop ?nadj (adjSens b)"
  from assms have le: "?nadj \<le> length (adjSens b)"
    by (simp add: buffers_fit_def)
  then have lenS: "length ?S = ?nadj" by simp
  have lenA: "length ?A = length (adjSens b)"
    using le lenS by simp
  have row: "?A ! d = scatter (+) nz (adjSeed b ! d) (adjSens b ! d)" if "d < ?nadj" for d
  proof -
    have "?A ! d = ?S ! d" using that lenS by (simp add: nth_append)
    also have "\<dots> = scatter (+) nz (adjSeed b ! d) (adjSens b ! d)"
      using that le by simp
    finally show ?thesis .
  qed
  have rest: "?A ! d = adjSens b ! d" if "?nadj \<le> d" "d < length (adjSens b)" for d
  proof -
    have "?A ! d = drop ?nadj (adjSens b) ! (d - ?nadj)"
      using that lenS by (simp add: nth_append)
    also have "\<dots> = adjSens b ! d" using that by simp
    finally show ?thesis .
  qed
  let ?b' = "\<lparr>outputd = gathered idata nz,
              fwdSens = map (\<lambda>fseed. gathered fseed nz) (take (length (fwdSens b)) fwdSeed),
              adjSeed = map (\<lambda>_. replicate (length nz) (0::'a)) (adjSeed b),
              adjSens = ?A\<rparr>"
  have run: "evaluateGen nz idata fwdSeed b = Inr ?b'"
    by (rule evaluateGen_eq [OF assms])
  have 1: "adjSeed ?b' = map (\<lambda>_. replicate (length nz) 0) (adjSeed b)" by simp
  have 2: "length (adjSens ?b') = length (adjSens b)" using lenA by simp
  have 3: "\<forall>d < ?nadj. length (adjSens ?b' ! d) = length (adjSens b ! d)
             \<and> (\<forall>j < length (adjSens b ! d).
                   adjSens ?b' ! d ! j
                     = foldl (+) (adjSens b ! d ! j)
                         (map snd (filter (\<lambda>(k, s). k = int j) (zip nz (adjSeed b ! d)))))"
  proof (intro allI impI conjI)
    fix d assume d: "d < ?nadj"
    show "length (adjSens ?b' ! d) = length (adjSens b ! d)"
      using row [OF d] by (simp add: length_scatter)
    fix j assume "j < length (adjSens b ! d)"
    then show "adjSens ?b' ! d ! j
                 = foldl (+) (adjSens b ! d ! j)
                     (map snd (filter (\<lambda>(k, s). k = int j) (zip nz (adjSeed b ! d))))"
      using row [OF d] by (simp add: scatter_nth)
  qed
  have 4: "\<forall>d < length (adjSens b). ?nadj \<le> d \<longrightarrow> adjSens ?b' ! d = adjSens b ! d"
    using rest by simp
  from run 1 2 3 4 show ?thesis by blast
qed

theorem C3_gather_adjoint_witness:
  "evaluateGen [1, -1, 0] [Num 10, Num 20] []
     \<lparr>outputd = [Num 0, Num 0, Num 0], fwdSens = [],
      adjSeed = [[Num 5, Num 7, Num 9]], adjSens = [[Num 0, Num 0]]\<rparr>
   = Inr \<lparr>outputd = [Num 20, Num 0, Num 10], fwdSens = [],
          adjSeed = [[Num 0, Num 0, Num 0]], adjSens = [[Num 9, Num 5]]\<rparr>"
proof -
  let ?b = "\<lparr>outputd = [Num 0, Num 0, Num 0], fwdSens = [],
             adjSeed = [[Num 5, Num 7, Num 9]], adjSens = [[Num 0, Num 0]]\<rparr>"
  have fit: "buffers_fit [1, -1, 0] [Num 10, Num 20] [] ?b"
    by (simp add: buffers_fit_def nz_within_def)
  from C3_gather_adjoint [OF fit] obtain b' where
    run: "evaluateGen [1, -1, 0] [Num 10, Num 20] [] ?b = Inr b'"
    and seed: "adjSeed b' = map (\<lambda>_. replicate (length [1, -1, 0 :: int]) 0) (adjSeed ?b)"
    and len: "length (adjSens b') = length (adjSens ?b)"
    and sens: "\<forall>d < length (adjSeed ?b).
                 length (adjSens b' ! d) = length (adjSens ?b ! d)
                 \<and> (\<forall>j < length (adjSens ?b ! d).
                       adjSens b' ! d ! j
                         = foldl (+) (adjSens ?b ! d ! j)
                             (map snd (filter (\<lambda>(k, s). k = int j)
                                         (zip [1, -1, 0] (adjSeed ?b ! d)))))"
    by blast
  from sens have l0: "length (adjSens b' ! 0) = 2"
    and e0: "adjSens b' ! 0 ! 0 = Num 9" and e1: "adjSens b' ! 0 ! 1 = Num 5"
    by (simp_all add: plus_double_def)
  from l0 e0 e1 have "adjSens b' ! 0 = [Num 9, Num 5]"
    by (cases "adjSens b' ! 0"; simp; cases "tl (adjSens b' ! 0)"; simp)
  with len have a: "adjSens b' = [[Num 9, Num 5]]"
    by (cases "adjSens b'") simp_all
  from seed have s: "adjSeed b' = [[Num 0, Num 0, Num 0]]"
    by (simp add: zero_double_def)
  from evaluateGen_eq [OF fit] run have o: "outputd b' = [Num 20, Num 0, Num 10]"
    and f: "fwdSens b' = []"
    by (auto simp: gathered_def zero_double_def)
  from run o f s a show ?thesis by simp
qed

text \<open>
  C8. The structural pass of the gather reads the same \<open>nz\<close> as numeric evaluation.
  Forward, output word \<open>i\<close> becomes input word \<open>nz[i]\<close>, or 0 where \<open>nz[i]\<close> is
  negative, which is the output numeric evaluation computes on the same data. In
  reverse, input word \<open>j\<close> is OR-ed with the output words of the positions \<open>i\<close> with
  \<open>nz[i] = j\<close>, and every output word is cleared.
\<close>

theorem C8_sparsity_pass:
  assumes "nz_within nz inputd" and "length outd = length nz"
  shows "propagateSparsity nz inputd outd True
           = Inr (inputd, map (\<lambda>k. if 0 \<le> k then inputd ! nat k else 0) nz)
       \<and> (\<exists>ind'. propagateSparsity nz inputd outd False
                    = Inr (ind', replicate (length nz) 0)
               \<and> length ind' = length inputd
               \<and> (\<forall>j < length inputd.
                     ind' ! j = foldl (OR) (inputd ! j)
                                  (map snd (filter (\<lambda>(k, s). k = int j) (zip nz outd)))))
       \<and> (\<forall>b. outputd b = outd \<longrightarrow> fwdSens b = [] \<longrightarrow> adjSeed b = [] \<longrightarrow>
              (\<exists>b'. evaluateGen nz inputd [] b = Inr b'
                  \<and> propagateSparsity nz inputd outd True = Inr (inputd, outputd b')))"
proof (intro conjI)
  have g: "gather_loop nz inputd outd = Inr (gathered inputd nz)"
    using assms by (intro gather_loop_eq) (simp_all add: nz_within_def)
  then show fwd: "propagateSparsity nz inputd outd True
           = Inr (inputd, map (\<lambda>k. if 0 \<le> k then inputd ! nat k else 0) nz)"
    by (simp add: propagateSparsity_def ebind_def gathered_def)
  have sc: "scatter_loop (OR) nz outd inputd
              = Inr (replicate (length nz) 0, scatter (OR) nz outd inputd)"
    using assms by (intro scatter_loop_eq) (simp_all add: nz_within_def)
  then have "propagateSparsity nz inputd outd False
               = Inr (scatter (OR) nz outd inputd, replicate (length nz) 0)"
    by (simp add: propagateSparsity_def ebind_def)
  then show "\<exists>ind'. propagateSparsity nz inputd outd False
                    = Inr (ind', replicate (length nz) 0)
               \<and> length ind' = length inputd
               \<and> (\<forall>j < length inputd.
                     ind' ! j = foldl (OR) (inputd ! j)
                                  (map snd (filter (\<lambda>(k, s). k = int j) (zip nz outd))))"
    by (simp add: length_scatter scatter_nth)
  show "\<forall>b. outputd b = outd \<longrightarrow> fwdSens b = [] \<longrightarrow> adjSeed b = [] \<longrightarrow>
              (\<exists>b'. evaluateGen nz inputd [] b = Inr b'
                  \<and> propagateSparsity nz inputd outd True = Inr (inputd, outputd b'))"
  proof (intro allI impI)
    fix b :: "'a word buffers"
    assume b: "outputd b = outd" "fwdSens b = []" "adjSeed b = []"
    then have "buffers_fit nz inputd [] b"
      using assms by (simp add: buffers_fit_def)
    from evaluateGen_eq [OF this] fwd
    show "\<exists>b'. evaluateGen nz inputd [] b = Inr b'
             \<and> propagateSparsity nz inputd outd True = Inr (inputd, outputd b')"
      by (simp add: gathered_def)
  qed
qed

theorem C8_sparsity_pass_witness:
  "propagateSparsity [1, -1, 0, 1] [5, 6 :: 8 word] [1, 2, 4, 8] True
     = Inr ([5, 6], [6, 0, 5, 6])
   \<and> propagateSparsity [1, -1, 0, 1] [5, 6 :: 8 word] [1, 2, 4, 8] False
     = Inr ([5, 15], [0, 0, 0, 0])"
proof -
  have h: "nz_within [1, -1, 0, 1] [5, 6 :: 8 word]"
    "length [1, 2, 4, 8 :: 8 word] = length [1, -1, 0, 1 :: int]"
    by (simp_all add: nz_within_def)
  from C8_sparsity_pass [OF h] obtain ind' where
    f: "propagateSparsity [1, -1, 0, 1] [5, 6 :: 8 word] [1, 2, 4, 8] True
          = Inr ([5, 6], map (\<lambda>k. if 0 \<le> k then [5, 6] ! nat k else 0) [1, -1, 0, 1])"
    and r: "propagateSparsity [1, -1, 0, 1] [5, 6 :: 8 word] [1, 2, 4, 8] False
              = Inr (ind', replicate (length [1, -1, 0, 1 :: int]) 0)"
    and l: "length ind' = length [5, 6 :: 8 word]"
    and e: "\<forall>j < length [5, 6 :: 8 word].
              ind' ! j = foldl (OR) ([5, 6] ! j)
                           (map snd (filter (\<lambda>(k, s). k = int j)
                                       (zip [1, -1, 0, 1] [1, 2, 4, 8])))"
    by blast
  from e have "ind' ! 0 = 5" "ind' ! 1 = 15" by simp_all
  with l have "ind' = [5, 15]"
    by (cases ind'; simp; cases "tl ind'"; simp)
  with f r show ?thesis by simp
qed

text \<open>
  C6. \<^verbatim>\<open>isIdentity\<close> holds exactly when the pattern of the node is the pattern of
  its dependency and \<open>nz[i] = i\<close> at every position. When it holds, for a node with
  one index per nonzero of its pattern and a dependency value with one entry per
  nonzero of the dependency's pattern, the value of the node is that value.
\<close>

theorem C6_isIdentity:
  "(isIdentity sp nz y = (sp = sparsity y \<and> (\<forall>i < length nz. nz ! i = int i)))
   \<and> (isIdentity sp nz y \<longrightarrow> length nz = length (col sp) \<longrightarrow>
        value_of env y = Inr x \<longrightarrow> length x = length (col (sparsity y)) \<longrightarrow>
        value_of env (GetNonzeros sp nz y) = Inr x)"
proof (intro conjI impI)
  show iff: "isIdentity sp nz y = (sp = sparsity y \<and> (\<forall>i < length nz. nz ! i = int i))"
    by (simp add: isIdentity_def nz_in_order_iff)
  assume id: "isIdentity sp nz y" and len: "length nz = length (col sp)"
    and y: "value_of env y = Inr x" and x: "length x = length (col (sparsity y))"
  from id iff have sp: "sp = sparsity y" and nz: "\<forall>i < length nz. nz ! i = int i"
    by simp_all
  from sp len x have lx: "length x = length nz" by simp
  let ?b = "\<lparr>outputd = replicate (length (col sp)) (0::'a), fwdSens = [], adjSeed = [],
             adjSens = []\<rparr>"
  have "buffers_fit nz x [] ?b"
    using nz lx len by (auto simp: buffers_fit_def nz_within_def in_set_conv_nth)
  from evaluateGen_eq [OF this] have "evaluateGen nz x [] ?b
      = Inr \<lparr>outputd = x, fwdSens = [], adjSeed = [], adjSens = []\<rparr>"
    using gathered_identity [OF nz lx] by simp
  with y show "value_of env (GetNonzeros sp nz y) = Inr x"
    by simp
qed

theorem C6_isIdentity_witness:
  "isIdentity \<lparr>size1 = 1, size2 = 2, col = [0, 1], rowind = [0, 2]\<rparr> [0, 1]
     (Symbolic ''x'' \<lparr>size1 = 1, size2 = 2, col = [0, 1], rowind = [0, 2]\<rparr>)
   \<and> value_of (\<lambda>n. [Num 3, Num 4])
       (GetNonzeros \<lparr>size1 = 1, size2 = 2, col = [0, 1], rowind = [0, 2]\<rparr> [0, 1]
          (Symbolic ''x'' \<lparr>size1 = 1, size2 = 2, col = [0, 1], rowind = [0, 2]\<rparr>))
     = Inr [Num 3, Num 4]
   \<and> \<not> isIdentity \<lparr>size1 = 1, size2 = 2, col = [0, 1], rowind = [0, 2]\<rparr> [1, 0]
         (Symbolic ''x'' \<lparr>size1 = 1, size2 = 2, col = [0, 1], rowind = [0, 2]\<rparr>)"
proof -
  let ?sp = "\<lparr>size1 = 1, size2 = 2, col = [0, 1], rowind = [0, 2]\<rparr>"
  let ?env = "\<lambda>n::string. [Num 3, Num 4]"
  have y: "value_of ?env (Symbolic ''x'' ?sp) = Inr [Num 3, Num 4]" by simp
  have all: "\<forall>i < length [0, 1 :: int]. [0, 1 :: int] ! i = int i"
    by (simp add: less_Suc_eq)
  have nall: "\<not> (\<forall>i < length [1, 0 :: int]. [1, 0 :: int] ! i = int i)"
    by (rule notI, drule spec [of _ 0]) simp
  show ?thesis
    using C6_isIdentity [of ?sp "[0, 1]" "Symbolic ''x'' ?sp" ?env "[Num 3, Num 4]"]
      C6_isIdentity [of ?sp "[1, 0]" "Symbolic ''x'' ?sp" ?env "[Num 3, Num 4]"]
      y all nall
    by simp
qed

text \<open>
  C4. A gather with mapping \<open>nz\<close> built on a gather node with mapping \<^verbatim>\<open>nz_\<close> is to be
  the single gather with mapping \<open>nz_[nz[i]]\<close>, also where an entry is the absent
  marker. \<^verbatim>\<open>getGetNonzeros\<close> reads \<^verbatim>\<open>nz_[*i]\<close> for every entry of its argument
  without testing its sign: for the argument \<open>[-1]\<close> it reads \<^verbatim>\<open>nz_[-1]\<close>, outside the
  vector, while the two gathers evaluated in sequence give \<open>[0]\<close>. For arguments
  whose entries are all valid indices the flattening is right
  (\<open>getGetNonzeros_flattens_valid\<close>, \<open>flattened_value_valid\<close>).
\<close>

theorem C4_gather_of_gather_absent_index:
  "getGetNonzeros
     (GetNonzeros \<lparr>size1 = 1, size2 = 1, col = [0], rowind = [0, 1]\<rparr> [0]
        (Symbolic ''x'' \<lparr>size1 = 1, size2 = 1, col = [0], rowind = [0, 1]\<rparr>))
     \<lparr>size1 = 1, size2 = 1, col = [0], rowind = [0, 1]\<rparr> [-1]
   = Inl OutOfRange
   \<and> value_of (\<lambda>n. [Num 7])
       (GetNonzeros \<lparr>size1 = 1, size2 = 1, col = [0], rowind = [0, 1]\<rparr> [-1]
          (GetNonzeros \<lparr>size1 = 1, size2 = 1, col = [0], rowind = [0, 1]\<rparr> [0]
             (Symbolic ''x'' \<lparr>size1 = 1, size2 = 1, col = [0], rowind = [0, 1]\<rparr>)))
     = Inr [Num 0]"
  by (simp add: ebind_def vec_get_def vec_set_def evaluateGen_def gather_loop_def
      gather_step_def select_nz_def range_int_def zero_double_def)

text \<open>
  C10. For a node whose indices are below the number of nonzeros of its dependency,
  \<^verbatim>\<open>evaluateMX\<close> raises ``Not implemented'' as soon as one index is negative, whatever
  the construction of the derivative nodes would do, so that none is built; when no
  index is negative the counting loop with the assertion passes. Numeric evaluation
  of a node with a negative index returns (witness, and C2).
\<close>

theorem C10_evaluateMX_requires_nonnegative:
  assumes "\<forall>k \<in> set nz. k < int (length icol)"
  shows "((\<exists>k \<in> set nz. k < 0) \<longrightarrow>
            (\<forall>build. evaluateMX nz icol irow isp_size1 build
                       = (Inl (CasadiException ''Not implemented'') :: error + 'r)))
       \<and> ((\<forall>k \<in> set nz. 0 \<le> k) \<longrightarrow>
            (\<exists>c. foreach nz count_step (replicate (length icol + 1) 0) = Inr c))"
proof (intro conjI impI allI)
  fix build :: "int list \<Rightarrow> int list \<Rightarrow> error + 'r"
  assume "\<exists>k \<in> set nz. k < 0"
  then have "foreach nz count_step (replicate (length icol + 1) 0)
               = Inl (CasadiException ''Not implemented'')"
    using assms by (intro count_loop_raises) simp_all
  then show "evaluateMX nz icol irow isp_size1 build
               = Inl (CasadiException ''Not implemented'')"
    by (simp add: evaluateMX_def ebind_def)
next
  assume "\<forall>k \<in> set nz. 0 \<le> k"
  with assms have "\<forall>k \<in> set nz. 0 \<le> k \<and> k + 1 < int (length (replicate (length icol + 1) (0::int)))"
    by simp
  from count_loop_passes [OF this]
  show "\<exists>c. foreach nz count_step (replicate (length icol + 1) 0) = Inr c"
    by blast
qed

theorem C10_evaluateMX_requires_nonnegative_witness:
  "evaluateMX [1, -1, 0] [0, 1] [0, 0] 1 (\<lambda>nz_order el_input. Inr (nz_order, el_input))
     = Inl (CasadiException ''Not implemented'')
   \<and> (\<exists>c. foreach [1, 0, 1] count_step (replicate (length [0, 1 :: int] + 1) 0) = Inr c)
   \<and> (\<exists>b'. evaluateGen [1, -1, 0] [Num 10, Num 20] []
              \<lparr>outputd = [Num 0, Num 0, Num 0], fwdSens = [], adjSeed = [], adjSens = []\<rparr>
            = Inr b')"
proof -
  have a: "\<forall>k \<in> set [1, -1, 0 :: int]. k < int (length [0, 1 :: int])" by simp
  have b: "\<forall>k \<in> set [1, 0, 1 :: int]. k < int (length [0, 1 :: int])" by simp
  have fit: "buffers_fit [1, -1, 0] [Num 10, Num 20] []
               \<lparr>outputd = [Num 0, Num 0, Num 0], fwdSens = [], adjSeed = [], adjSens = []\<rparr>"
    by (simp add: buffers_fit_def nz_within_def)
  show ?thesis
    using C10_evaluateMX_requires_nonnegative
        [where ?'r = "int list \<times> int list", OF a, of "[0, 0]" 1]
      C10_evaluateMX_requires_nonnegative
        [where ?'r = "int list \<times> int list", OF b, of "[0, 0]" 1]
      evaluateGen_eq [OF fit]
    by simp
qed

lemma evaluateMX_valid_example:
  "evaluateMX [1, 0, 1] [0, 1] [0, 0] 1 (\<lambda>nz_order el_input. Inr (nz_order, el_input))
     = Inr ([1, 0, 2], [0, 1, 1])"
  by (simp add: evaluateMX_def count_step_def cumsum_step_def order_step_def el_step_def
      resize_def casadi_assert_message_def ebind_def vec_get_def vec_set_def range_int_def
      upt_conv_Cons)

end
